theory Spec2Isabelle
  imports Main "HOL-Library.Word"
begin

section \<open>groot/rarrow: reference counting of the Arrow table\<close>

text \<open>
  \<^verbatim>\<open>rootTable\<close> (groot/rarrow/table.go) keeps a reference count \<^verbatim>\<open>refs int64\<close> and
  the slice \<^verbatim>\<open>cols []*array.Column\<close>. The other fields (allocator, tree, schema, row
  and column counts) are never touched by \<^verbatim>\<open>Retain\<close> and \<^verbatim>\<open>Release\<close>.
  The columns belong to the Arrow library; a column is a value of the type parameter.
\<close>

record 'c rootTable =
  refs :: "64 word"
  cols :: "'c list"

text \<open>
  \<^verbatim>\<open>NewTable\<close> sets \<^verbatim>\<open>refs: 1\<close> and lets \<^verbatim>\<open>init\<close> fill \<^verbatim>\<open>cols\<close> with one column per
  field of the schema. The columns that \<^verbatim>\<open>init\<close> builds from the tree are the argument.
\<close>

definition NewTable :: "'c list \<Rightarrow> 'c rootTable" where
  "NewTable cs = \<lparr>refs = 1, cols = cs\<rparr>"

text \<open>\<^verbatim>\<open>atomic.AddInt64(&tbl.refs, 1)\<close>: the addition of a 64-bit integer, which wraps.\<close>

definition Retain :: "'c rootTable \<Rightarrow> 'c rootTable" where
  "Retain tbl = tbl\<lparr>refs := refs tbl + 1\<rparr>"

text \<open>
  \<^verbatim>\<open>Release\<close>: \<open>None\<close> is the panic "too many releases". Otherwise the result is the
  table after the call together with the columns on which \<^verbatim>\<open>Release()\<close> was invoked,
  in the order of the loop.
\<close>

definition Release :: "'c rootTable \<Rightarrow> ('c rootTable \<times> 'c list) option" where
  "Release tbl =
     (if sint (refs tbl) \<le> 0 then None
      else if refs tbl - 1 = 0
        then Some (tbl\<lparr>refs := refs tbl - 1, cols := []\<rparr>, cols tbl)
        else Some (tbl\<lparr>refs := refs tbl - 1\<rparr>, []))"

text \<open>A client of the table: any sequence of calls, stopped by the first panic.\<close>

datatype tableCall = CallRetain | CallRelease

fun runCalls :: "tableCall list \<Rightarrow> 'c rootTable \<times> 'c list \<Rightarrow> ('c rootTable \<times> 'c list) option" where
  "runCalls [] s = Some s"
| "runCalls (CallRetain # cs) (tbl, freed) = runCalls cs (Retain tbl, freed)"
| "runCalls (CallRelease # cs) (tbl, freed) =
     (case Release tbl of
        None \<Rightarrow> None
      | Some (tbl', now) \<Rightarrow> runCalls cs (tbl', freed @ now))"

section \<open>fwk/hbooksvc: the histogram booking service\<close>

text \<open>
  The service (fwk/hbooksvc/hsvc.go) holds four maps of booked objects, the declared
  streams and the opened read and write streams. Its lifecycle state comes from the
  embedded \<^verbatim>\<open>fwk.SvcBase\<close> (\<^verbatim>\<open>svc.FSMState()\<close>); \<^verbatim>\<open>fsm.State\<close> is an integer type.
  Histograms, profiles and scatters belong to the \<^verbatim>\<open>hbook\<close> package: they are values of
  the type parameter \<open>'h\<close>, and a nil pointer is \<open>None\<close>. The mutex that wraps each
  booked object is not modelled.
\<close>

type_synonym HID = string

datatype Mode = Read | Write | OtherMode int

record Stream =
  StreamName :: string
  StreamMode :: Mode

record 'h H1D =
  H1D_ID :: HID
  H1D_Hist :: "'h option"

record 'h H2D =
  H2D_ID :: HID
  H2D_Hist :: "'h option"

record 'h P1D =
  P1D_ID :: HID
  P1D_Profile :: "'h option"

record 'h S2D =
  S2D_ID :: HID
  S2D_Scatter :: "'h option"

text \<open>The element type of \<^verbatim>\<open>objs []interface{}\<close> of a stream, for the values stored here.\<close>

datatype 'h booked =
    BookedH1D "'h H1D"
  | BookedH2D "'h H2D"
  | BookedP1D "'h P1D"
  | BookedS2D "'h S2D"

text \<open>
  \<^verbatim>\<open>istream\<close> and \<^verbatim>\<open>ostream\<close>: the file and the rio reader or writer are the \<open>handle\<close>,
  \<open>objs\<close> is the list of objects attached to the stream.
\<close>

record ('h, 'io) iostream =
  handle :: 'io
  objs :: "'h booked list"

datatype 'e hsvcError =
    CanNotBook int
  | NoStream string
  | NoReadStream string
  | NoWriteStream string
  | InvalidStreamMode int
  | ReadFailed 'e

record ('h, 'rd, 'wr) hsvc =
  FSMState :: int
  h1ds :: "HID \<rightharpoonup> 'h H1D"
  h2ds :: "HID \<rightharpoonup> 'h H2D"
  p1ds :: "HID \<rightharpoonup> 'h P1D"
  s2ds :: "HID \<rightharpoonup> 'h S2D"
  streams :: "string \<rightharpoonup> Stream"
  w :: "string \<rightharpoonup> ('h, 'wr) iostream"
  r :: "string \<rightharpoonup> ('h, 'rd) iostream"

text \<open>
  What the service takes from other packages, as parameters: the two constants
  \<^verbatim>\<open>fsm.Configured\<close> and \<^verbatim>\<open>fsm.Running\<close>, the constructors of \<^verbatim>\<open>hbook\<close> (\<open>None\<close> when the
  constructor panics; \<open>'x\<close> stands for \<^verbatim>\<open>float64\<close>), the assignment
  \<^verbatim>\<open>Annotation()["name"] = ...\<close>, and \<^verbatim>\<open>istream.read\<close>, which fills the object from the
  stream and may fail.
\<close>

record ('h, 'x, 'rd, 'e) fwk =
  Configured :: int
  Running :: int
  NewH1D :: "int \<Rightarrow> 'x \<Rightarrow> 'x \<Rightarrow> 'h option"
  NewH2D :: "int \<Rightarrow> 'x \<Rightarrow> 'x \<Rightarrow> int \<Rightarrow> 'x \<Rightarrow> 'x \<Rightarrow> 'h option"
  NewP1D :: "int \<Rightarrow> 'x \<Rightarrow> 'x \<Rightarrow> 'h option"
  NewS2D :: "'h option"
  setName :: "string \<Rightarrow> 'h \<Rightarrow> 'h"
  read :: "('h, 'rd) iostream \<Rightarrow> string \<Rightarrow> 'h \<Rightarrow> 'e option \<times> 'h"

definition fullname :: "string \<Rightarrow> string \<Rightarrow> string" where
  "fullname stream hid = (if stream = [] then hid else stream @ ''/'' @ hid)"

text \<open>\<^verbatim>\<open>strings.TrimPrefix(n, "/")\<close>, \<^verbatim>\<open>strings.TrimSuffix(n, "/")\<close>, \<^verbatim>\<open>strings.Split(n, "/")\<close>
  and \<^verbatim>\<open>strings.Join(o, "/")\<close> of the Go standard library.\<close>

definition TrimPrefix :: "string \<Rightarrow> string" where
  "TrimPrefix n = (case n of c # cs \<Rightarrow> if c = CHR ''/'' then cs else n | [] \<Rightarrow> [])"

definition TrimSuffix :: "string \<Rightarrow> string" where
  "TrimSuffix n = (if n \<noteq> [] \<and> last n = CHR ''/'' then butlast n else n)"

fun Split :: "string \<Rightarrow> string list" where
  "Split [] = [[]]"
| "Split (c # cs) =
     (if c = CHR ''/'' then [] # Split cs
      else (case Split cs of x # xs \<Rightarrow> (c # x) # xs | [] \<Rightarrow> [[c]]))"

fun Join :: "string list \<Rightarrow> string" where
  "Join [] = []"
| "Join [x] = x"
| "Join (x # y # ys) = x @ ''/'' @ Join (y # ys)"

text \<open>\<^verbatim>\<open>split\<close>: (stream-name, histo-name); \<open>None\<close> is \<^verbatim>\<open>panic("impossible")\<close>.\<close>

definition split :: "string \<Rightarrow> (string \<times> string) option" where
  "split n =
     (case Split (TrimSuffix (TrimPrefix n)) of
        [] \<Rightarrow> None
      | [a] \<Rightarrow> Some ([], a)
      | [a, b] \<Rightarrow> Some (a, b)
      | a # rest \<Rightarrow> Some (a, Join rest))"

text \<open>
  The \<^verbatim>\<open>switch stream\<close> statement is the same text in the four booking functions; it is
  written once here. \<open>wrap\<close> makes the value appended to the stream's \<open>objs\<close> from the
  object. The result is the object, the error and the service.
\<close>

definition attach ::
  "('h, 'x, 'rd, 'e) fwk \<Rightarrow> ('h, 'rd, 'wr) hsvc \<Rightarrow> string \<Rightarrow> string \<Rightarrow> 'h \<Rightarrow> ('h \<Rightarrow> 'h booked)
     \<Rightarrow> 'h \<times> 'e hsvcError option \<times> ('h, 'rd, 'wr) hsvc" where
  "attach env svc stream hid hist wrap =
     (if stream = [] then (hist, None, svc)
      else let sname = ''/'' @ stream in
        case streams svc sname of
          None \<Rightarrow> (hist, Some (NoStream sname), svc)
        | Some str \<Rightarrow>
            (case StreamMode str of
               Read \<Rightarrow>
                 (case r svc sname of
                    None \<Rightarrow> (hist, Some (NoReadStream sname), svc)
                  | Some rs \<Rightarrow>
                      (case read env rs hid hist of
                         (Some e, hist') \<Rightarrow> (hist', Some (ReadFailed e), svc)
                       | (None, hist') \<Rightarrow>
                           (hist', None,
                            svc\<lparr>r := (r svc)(sname \<mapsto> rs\<lparr>objs := objs rs @ [wrap hist']\<rparr>)\<rparr>)))
             | Write \<Rightarrow>
                 (case w svc sname of
                    None \<Rightarrow> (hist, Some (NoWriteStream sname), svc)
                  | Some ws \<Rightarrow>
                      (hist, None,
                       svc\<lparr>w := (w svc)(sname \<mapsto> ws\<lparr>objs := objs ws @ [wrap hist]\<rparr>)\<rparr>))
             | OtherMode m \<Rightarrow> (hist, Some (InvalidStreamMode m), svc)))"

text \<open>
  The booking functions return the object, the error and the service after the call;
  \<open>None\<close> is a panic. The first test is the guard on the lifecycle state, which returns
  the zero value of the object.
\<close>

definition BookH1D ::
  "('h, 'x, 'rd, 'e) fwk \<Rightarrow> ('h, 'rd, 'wr) hsvc \<Rightarrow> string \<Rightarrow> int \<Rightarrow> 'x \<Rightarrow> 'x
     \<Rightarrow> ('h H1D \<times> 'e hsvcError option \<times> ('h, 'rd, 'wr) hsvc) option" where
  "BookH1D env svc name nbins low high =
     (if \<not> (Configured env < FSMState svc \<and> FSMState svc < Running env)
      then Some (\<lparr>H1D_ID = [], H1D_Hist = None\<rparr>, Some (CanNotBook (FSMState svc)), svc)
      else case split name of
        None \<Rightarrow> None
      | Some (stream, hid) \<Rightarrow>
          (case NewH1D env nbins low high of
             None \<Rightarrow> None
           | Some h0 \<Rightarrow>
               (case attach env svc stream hid (setName env (fullname stream hid) h0)
                       (\<lambda>x. BookedH1D \<lparr>H1D_ID = hid, H1D_Hist = Some x\<rparr>) of
                  (hist, Some e, svc') \<Rightarrow> Some (\<lparr>H1D_ID = hid, H1D_Hist = Some hist\<rparr>, Some e, svc')
                | (hist, None, svc') \<Rightarrow>
                    Some (\<lparr>H1D_ID = hid, H1D_Hist = Some hist\<rparr>, None,
                          svc'\<lparr>h1ds := (h1ds svc')(hid \<mapsto> \<lparr>H1D_ID = hid, H1D_Hist = Some hist\<rparr>)\<rparr>))))"

definition BookH2D ::
  "('h, 'x, 'rd, 'e) fwk \<Rightarrow> ('h, 'rd, 'wr) hsvc \<Rightarrow> string \<Rightarrow> int \<Rightarrow> 'x \<Rightarrow> 'x \<Rightarrow> int \<Rightarrow> 'x \<Rightarrow> 'x
     \<Rightarrow> ('h H2D \<times> 'e hsvcError option \<times> ('h, 'rd, 'wr) hsvc) option" where
  "BookH2D env svc name nx xmin xmax ny ymin ymax =
     (if \<not> (Configured env < FSMState svc \<and> FSMState svc < Running env)
      then Some (\<lparr>H2D_ID = [], H2D_Hist = None\<rparr>, Some (CanNotBook (FSMState svc)), svc)
      else case split name of
        None \<Rightarrow> None
      | Some (stream, hid) \<Rightarrow>
          (case NewH2D env nx xmin xmax ny ymin ymax of
             None \<Rightarrow> None
           | Some h0 \<Rightarrow>
               (case attach env svc stream hid (setName env (fullname stream hid) h0)
                       (\<lambda>x. BookedH2D \<lparr>H2D_ID = hid, H2D_Hist = Some x\<rparr>) of
                  (hist, Some e, svc') \<Rightarrow> Some (\<lparr>H2D_ID = hid, H2D_Hist = Some hist\<rparr>, Some e, svc')
                | (hist, None, svc') \<Rightarrow>
                    Some (\<lparr>H2D_ID = hid, H2D_Hist = Some hist\<rparr>, None,
                          svc'\<lparr>h2ds := (h2ds svc')(hid \<mapsto> \<lparr>H2D_ID = hid, H2D_Hist = Some hist\<rparr>)\<rparr>))))"

definition BookP1D ::
  "('h, 'x, 'rd, 'e) fwk \<Rightarrow> ('h, 'rd, 'wr) hsvc \<Rightarrow> string \<Rightarrow> int \<Rightarrow> 'x \<Rightarrow> 'x
     \<Rightarrow> ('h P1D \<times> 'e hsvcError option \<times> ('h, 'rd, 'wr) hsvc) option" where
  "BookP1D env svc name nbins low high =
     (if \<not> (Configured env < FSMState svc \<and> FSMState svc < Running env)
      then Some (\<lparr>P1D_ID = [], P1D_Profile = None\<rparr>, Some (CanNotBook (FSMState svc)), svc)
      else case split name of
        None \<Rightarrow> None
      | Some (stream, hid) \<Rightarrow>
          (case NewP1D env nbins low high of
             None \<Rightarrow> None
           | Some h0 \<Rightarrow>
               (case attach env svc stream hid (setName env (fullname stream hid) h0)
                       (\<lambda>x. BookedP1D \<lparr>P1D_ID = hid, P1D_Profile = Some x\<rparr>) of
                  (hist, Some e, svc') \<Rightarrow> Some (\<lparr>P1D_ID = hid, P1D_Profile = Some hist\<rparr>, Some e, svc')
                | (hist, None, svc') \<Rightarrow>
                    Some (\<lparr>P1D_ID = hid, P1D_Profile = Some hist\<rparr>, None,
                          svc'\<lparr>p1ds := (p1ds svc')(hid \<mapsto> \<lparr>P1D_ID = hid, P1D_Profile = Some hist\<rparr>)\<rparr>))))"

definition BookS2D ::
  "('h, 'x, 'rd, 'e) fwk \<Rightarrow> ('h, 'rd, 'wr) hsvc \<Rightarrow> string
     \<Rightarrow> ('h S2D \<times> 'e hsvcError option \<times> ('h, 'rd, 'wr) hsvc) option" where
  "BookS2D env svc name =
     (if \<not> (Configured env < FSMState svc \<and> FSMState svc < Running env)
      then Some (\<lparr>S2D_ID = [], S2D_Scatter = None\<rparr>, Some (CanNotBook (FSMState svc)), svc)
      else case split name of
        None \<Rightarrow> None
      | Some (stream, hid) \<Rightarrow>
          (case NewS2D env of
             None \<Rightarrow> None
           | Some h0 \<Rightarrow>
               (case attach env svc stream hid (setName env (fullname stream hid) h0)
                       (\<lambda>x. BookedS2D \<lparr>S2D_ID = hid, S2D_Scatter = Some x\<rparr>) of
                  (hist, Some e, svc') \<Rightarrow> Some (\<lparr>S2D_ID = hid, S2D_Scatter = Some hist\<rparr>, Some e, svc')
                | (hist, None, svc') \<Rightarrow>
                    Some (\<lparr>S2D_ID = hid, S2D_Scatter = Some hist\<rparr>, None,
                          svc'\<lparr>s2ds := (s2ds svc')(hid \<mapsto> \<lparr>S2D_ID = hid, S2D_Scatter = Some hist\<rparr>)\<rparr>))))"

text \<open>
  A small instance for the examples: the states are numbered as the lifecycle goes
  (Configured is 2, Running is 5), a histogram is the name it was annotated with, the
  constructors refuse a number of bins that is not positive, and \<open>read\<close> leaves the
  object as it is.
\<close>

definition exampleFwk :: "(string, int, unit, unit) fwk" where
  "exampleFwk =
     \<lparr>Configured = 2, Running = 5,
      NewH1D = (\<lambda>n lo hi. if n \<le> 0 then None else Some []),
      NewH2D = (\<lambda>nx xlo xhi ny ylo yhi. if nx \<le> 0 \<or> ny \<le> 0 then None else Some []),
      NewP1D = (\<lambda>n lo hi. if n \<le> 0 then None else Some []),
      NewS2D = Some [],
      setName = (\<lambda>n h. n),
      read = (\<lambda>s hid h. (None, h))\<rparr>"

definition exampleSvc :: "int \<Rightarrow> (string, unit, unit) hsvc" where
  "exampleSvc st =
     \<lparr>FSMState = st, h1ds = Map.empty, h2ds = Map.empty, p1ds = Map.empty, s2ds = Map.empty,
      streams = Map.empty, w = Map.empty, r = Map.empty\<rparr>"

section \<open>groot/rbytes: the read cursor\<close>

type_synonym byte = "8 word"

text \<open>
  The errors of groot. \<open>CouldNotReadBasket\<close> and \<open>CouldNotUnmarshalBasket\<close> are
  the two wrappers that \<^verbatim>\<open>inflate\<close> builds with \<^verbatim>\<open>fmt.Errorf("...: %w", err)\<close>; the others
  are the spec's taxonomy.
\<close>

datatype error =
    IOError
  | CorruptBasket
  | CorruptBlock
  | NotFound
  | InvalidDirectory
  | UnknownClass
  | ClosedHandle
  | CouldNotReadBasket error
  | CouldNotUnmarshalBasket error

text \<open>
  Modelled from the spec: \<^verbatim>\<open>rbytes.RBuffer\<close> is not in src (only its calls \<^verbatim>\<open>Reset\<close>,
  \<^verbatim>\<open>SetPos\<close>, \<^verbatim>\<open>ReadI32\<close>, \<^verbatim>\<open>ReadArrayI32\<close> and \<^verbatim>\<open>Err\<close> are). The spec's byte cursor
  "wraps a buffer with a read/write position"; typed decode operations "advance the
  position"; "once any operation fails, the cursor enters a sticky-error state and all
  further operations are no-ops returning a zero value"; \<^verbatim>\<open>SetPos\<close>/\<^verbatim>\<open>Pos\<close> "allow
  arbitrary seeks"; integers are big-endian. \<^verbatim>\<open>Reset(data, offsets, hdr, ctx)\<close> receives
  the length of the key header: positions count from the start of the key, whose payload
  "starts at seek + key_header_len", so byte \<open>i\<close> of the data is at position
  \<open>hdr + i\<close>. A decode operation fails when the bytes it needs are not all inside the
  data; the spec does not name the error of the cursor, \<open>IOError\<close> is used.
\<close>

record 'f RBuffer =
  data :: "byte list"
  cur :: int
  err :: "error option"
  hdr :: "32 word"
  sictx :: "'f option"

definition Reset :: "byte list \<Rightarrow> 32 word \<Rightarrow> 'f option \<Rightarrow> 'f RBuffer" where
  "Reset bs h ctx = \<lparr>data = bs, cur = 0, err = None, hdr = h, sictx = ctx\<rparr>"

definition Pos :: "'f RBuffer \<Rightarrow> int" where
  "Pos rb = cur rb + uint (hdr rb)"

definition SetPos :: "64 word \<Rightarrow> 'f RBuffer \<Rightarrow> 'f RBuffer" where
  "SetPos pos rb = (if err rb \<noteq> None then rb else rb\<lparr>cur := sint pos - uint (hdr rb)\<rparr>)"

definition Err :: "'f RBuffer \<Rightarrow> error option" where
  "Err rb = err rb"

text \<open>Four bytes, most significant first.\<close>

definition be32 :: "byte \<Rightarrow> byte \<Rightarrow> byte \<Rightarrow> byte \<Rightarrow> 32 word" where
  "be32 b0 b1 b2 b3 =
     word_of_nat (((unat b0 * 256 + unat b1) * 256 + unat b2) * 256 + unat b3)"

text \<open>The \<^verbatim>\<open>int32\<close> that a byte sequence stores at index \<open>j\<close>.\<close>

definition storedI32 :: "byte list \<Rightarrow> nat \<Rightarrow> 32 word" where
  "storedI32 bs j = be32 (bs ! j) (bs ! (j + 1)) (bs ! (j + 2)) (bs ! (j + 3))"

fun beI32s :: "byte list \<Rightarrow> 32 word list" where
  "beI32s (b0 # b1 # b2 # b3 # bs) = be32 b0 b1 b2 b3 # beI32s bs"
| "beI32s bs = []"

text \<open>The bytes of the data from index \<open>i\<close>, \<open>n\<close> of them, when they are all there.\<close>

definition window :: "'f RBuffer \<Rightarrow> int \<Rightarrow> byte list option" where
  "window rb n =
     (if 0 \<le> cur rb \<and> 0 \<le> n \<and> cur rb + n \<le> int (length (data rb))
      then Some (take (nat n) (drop (nat (cur rb)) (data rb)))
      else None)"

definition ReadI32 :: "'f RBuffer \<Rightarrow> 32 word \<times> 'f RBuffer" where
  "ReadI32 rb =
     (if err rb \<noteq> None then (0, rb)
      else case window rb 4 of
        None \<Rightarrow> (0, rb\<lparr>err := Some IOError\<rparr>)
      | Some bs \<Rightarrow> (hd (beI32s bs), rb\<lparr>cur := cur rb + 4\<rparr>))"

text \<open>\<^verbatim>\<open>ReadArrayI32(arr)\<close> fills the whole of \<^verbatim>\<open>arr\<close>: it reads \<^verbatim>\<open>len(arr)\<close> values.\<close>

definition ReadArrayI32 :: "32 word list \<Rightarrow> 'f RBuffer \<Rightarrow> 32 word list \<times> 'f RBuffer" where
  "ReadArrayI32 arr rb =
     (if err rb \<noteq> None then (arr, rb)
      else case window rb (4 * int (length arr)) of
        None \<Rightarrow> (arr, rb\<lparr>err := Some IOError\<rparr>)
      | Some bs \<Rightarrow> (beI32s bs, rb\<lparr>cur := cur rb + 4 * int (length arr)\<rparr>))"

text \<open>
  Modelled from the spec: \<^verbatim>\<open>rbytes.ResizeU8\<close> and \<^verbatim>\<open>rbytes.ResizeI32\<close> are not in src.
  The offsets table is "a trailing count followed by that many offsets", and
  \<^verbatim>\<open>inflate\<close> reads the table into the slice resized to the count: the result has length
  \<open>n\<close> and keeps the elements it had, new elements being zero. A negative length is a
  panic (\<open>None\<close>), as for every Go slice expression.
\<close>

definition Resize :: "'a::zero list \<Rightarrow> int \<Rightarrow> 'a list option" where
  "Resize sli n =
     (if n < 0 then None
      else Some (take (nat n) sli @ replicate (nat n - length sli) 0))"

definition ResizeU8 :: "byte list \<Rightarrow> int \<Rightarrow> byte list option" where
  "ResizeU8 = Resize"

definition ResizeI32 :: "32 word list \<Rightarrow> int \<Rightarrow> 32 word list option" where
  "ResizeI32 = Resize"

section \<open>groot/rtree: the reader-side basket\<close>

text \<open>
  \<^verbatim>\<open>riofs.Key\<close> and \<^verbatim>\<open>rtree.Basket\<close> are declared outside src; the fields below are the
  ones that \<^verbatim>\<open>loadRLeaf\<close> and \<^verbatim>\<open>inflate\<close> read or write, with the integer types that
  their conversions show (\<^verbatim>\<open>int64(KeyLen())\<close>, \<^verbatim>\<open>uint32(KeyLen())\<close>, \<^verbatim>\<open>int(ObjLen())\<close>,
  \<^verbatim>\<open>int64(nevsize)\<close>, \<^verbatim>\<open>int64(last)\<close>, \<^verbatim>\<open>[]int32\<close> for the offsets). Go's \<^verbatim>\<open>int\<close> is 64 bits
  wide. \<open>kfile\<close> is the file that \<^verbatim>\<open>SetFile\<close> stores in the key.
\<close>

record 'f Key =
  keylen :: "32 word"
  objlen :: "32 word"
  kfile :: "'f option"

record 'f Basket =
  key :: "'f Key"
  nevsize :: "64 word"
  last' :: "64 word"
  offsets :: "32 word list"
  rbuf :: "'f RBuffer"

text \<open>
  \<^verbatim>\<open>rspan\<close>: of the span, \<^verbatim>\<open>inflate\<close> reads the location \<^verbatim>\<open>pos\<close>, the size \<^verbatim>\<open>sz\<close> and the
  recovered basket \<^verbatim>\<open>bkt\<close> (a pointer, nil is \<open>None\<close>); \<open>beg\<close> and \<open>end'\<close> are the entry
  range of the spec's EntrySpan.
\<close>

record 'f rspan =
  beg :: "64 word"
  end' :: "64 word"
  pos :: "64 word"
  sz :: "32 word"
  bkt :: "'f Basket option"

record 'f rbasket =
  id' :: "64 word"
  span' :: "'f rspan"
  bk :: "'f Basket"
  buf :: "byte list"

text \<open>
  \<^verbatim>\<open>rleaf\<close> is an interface: \<^verbatim>\<open>Offset()\<close> and the typed decode \<^verbatim>\<open>readFromBuffer\<close>, which
  reads from the cursor (leaving it advanced, or in error) and returns an error.
\<close>

record 'f rleaf =
  Offset :: "64 word"
  readFromBuffer :: "'f RBuffer \<Rightarrow> 'f RBuffer \<times> error option"

definition reset :: "'f rbasket \<Rightarrow> 'f rbasket" where
  "reset rbk = rbk\<lparr>id' := 0,
     span' := \<lparr>beg = 0, end' = 0, pos = 0, sz = 0, bkt = None\<rparr>\<rparr>"

text \<open>
  \<^verbatim>\<open>loadRLeaf\<close> returns the basket after the call and the error of the decode; \<open>None\<close> is
  the panic of \<^verbatim>\<open>offsets[int(entry)]\<close> on an index outside the table. All the arithmetic
  is that of \<^verbatim>\<open>int64\<close>; \<open>scast\<close> is the sign extension of an \<^verbatim>\<open>int32\<close>.
\<close>

definition loadRLeaf :: "'f rbasket \<Rightarrow> 64 word \<Rightarrow> 'f rleaf \<Rightarrow> ('f rbasket \<times> error option) option" where
  "loadRLeaf rbk entry leaf =
     (let off =
        (if length (offsets (bk rbk)) = 0
         then Some (entry * nevsize (bk rbk) + Offset leaf + scast (keylen (key (bk rbk))))
         else if 0 \<le> sint entry \<and> sint entry < int (length (offsets (bk rbk)))
           then Some (scast (offsets (bk rbk) ! nat (sint entry)) + Offset leaf)
           else None)
      in case off of
        None \<Rightarrow> None
      | Some offset \<Rightarrow>
          (case readFromBuffer leaf (SetPos offset (rbuf (bk rbk))) of
             (rb, e) \<Rightarrow> Some (rbk\<lparr>bk := (bk rbk)\<lparr>rbuf := rb\<rparr>\<rparr>, e)))"

text \<open>
  What \<^verbatim>\<open>inflate\<close> takes from \<^verbatim>\<open>riofs\<close> and from the basket's own decoder, as parameters:
  \<^verbatim>\<open>f.ReadAt(buf, seek)\<close> (the buffer after the call and the error),
  \<^verbatim>\<open>Basket.UnmarshalROOT\<close>, which decodes the basket header from the basket's cursor
  (the basket after the call and the error), and \<open>payload\<close>, the bytes that the codec
  layer reads and inflates for a key from the key's file.
\<close>

record 'f riofs =
  ReadAt :: "'f \<Rightarrow> byte list \<Rightarrow> 64 word \<Rightarrow> byte list \<times> error option"
  UnmarshalROOT :: "'f Basket \<Rightarrow> 'f Basket \<times> error option"
  payload :: "'f Key \<Rightarrow> error + byte list"

text \<open>
  Modelled from the spec: \<^verbatim>\<open>Key.Load\<close> is not in src. The key "lazily reads and
  decompresses the payload"; "a CompressedBlock decompresses to exactly its declared
  length"; "a basket whose post-inflation size disagrees with its declared uncompressed
  size fails CorruptBasket (non-retryable, surfaced immediately, no partial repair)".
  The declared uncompressed size is \<^verbatim>\<open>ObjLen()\<close>. \<^verbatim>\<open>Load(buf)\<close> fills the buffer it is
  given; a failure leaves the buffer as it was.
\<close>

definition Load :: "'f riofs \<Rightarrow> 'f Key \<Rightarrow> byte list \<Rightarrow> byte list \<times> error option" where
  "Load io k b =
     (case payload io k of
        Inl e \<Rightarrow> (b, Some e)
      | Inr bs \<Rightarrow>
          if int (length bs) \<noteq> sint (objlen k) then (b, Some CorruptBasket)
          else (bs, None))"

text \<open>
  The block of \<^verbatim>\<open>inflate\<close> under \<^verbatim>\<open>if eoff > 0\<close>: seek to \<^verbatim>\<open>last\<close>, read the count, resize
  the table, read the table, then ask the cursor for its error once. The result is the
  basket after the block and that error; \<open>None\<close> is the panic of a negative count.
\<close>

definition readOffsets :: "'f Basket \<Rightarrow> ('f Basket \<times> error option) option" where
  "readOffsets b =
     (let rb1 = SetPos (last' b) (rbuf b) in
      case ReadI32 rb1 of
        (n, rb2) \<Rightarrow>
          (case ResizeI32 (offsets b) (sint n) of
             None \<Rightarrow> None
           | Some offs \<Rightarrow>
               (case ReadArrayI32 offs rb2 of
                  (offs', rb3) \<Rightarrow> Some (b\<lparr>offsets := offs', rbuf := rb3\<rparr>, Err rb3))))"

text \<open>
  \<^verbatim>\<open>inflate\<close> returns the reader-side basket after the call and the error (\<open>None\<close> is
  nil); the outer \<open>None\<close> is a panic. The receiver is updated in place, so the basket
  after a failed call is part of the result. In \<^verbatim>\<open>case bufsz == 0\<close> the variable
  \<^verbatim>\<open>keylen\<close> still has its zero value. The slice \<^verbatim>\<open>rbk.buf\<close> and the data of the cursor
  share their memory in Go; the cursor is always reset on the buffer before it is read.
\<close>

definition inflate ::
  "'f riofs \<Rightarrow> string \<Rightarrow> 64 word \<Rightarrow> 'f rspan \<Rightarrow> 64 word \<Rightarrow> 'f \<Rightarrow> 'f rbasket
     \<Rightarrow> ('f rbasket \<times> error option) option" where
  "inflate io name i sp eoff f rbk0 =
     (let bufsz = sz sp;
          seek = pos sp;
          rbk1 = rbk0\<lparr>id' := i, span' := sp\<rparr>;
          rbk = (case bkt sp of None \<Rightarrow> rbk1 | Some b \<Rightarrow> rbk1\<lparr>bk := b\<rparr>)
      in
      if bufsz = 0 then
        (let b1 = (bk rbk)\<lparr>key := (key (bk rbk))\<lparr>kfile := Some f\<rparr>\<rparr> in
         case ResizeU8 (buf rbk) (sint (objlen (key b1))) of
           None \<Rightarrow> None
         | Some bs \<Rightarrow>
             (case Load io (key b1) bs of
                (bs', Some e) \<Rightarrow> Some (rbk\<lparr>bk := b1, buf := bs'\<rparr>, Some e)
              | (bs', None) \<Rightarrow>
                  Some (rbk\<lparr>bk := b1\<lparr>rbuf := Reset bs' 0 (Some f)\<rparr>, buf := bs'\<rparr>, None)))
      else
        (case ResizeU8 (buf rbk) (sint bufsz) of
           None \<Rightarrow> None
         | Some bs \<Rightarrow>
             (case ReadAt io f bs seek of
                (bs1, Some e) \<Rightarrow> Some (rbk\<lparr>buf := bs1\<rparr>, Some (CouldNotReadBasket e))
              | (bs1, None) \<Rightarrow>
                  (case UnmarshalROOT io ((bk rbk)\<lparr>rbuf := Reset bs1 0 (Some f)\<rparr>) of
                     (b1, Some e) \<Rightarrow>
                       Some (rbk\<lparr>bk := b1, buf := bs1\<rparr>, Some (CouldNotUnmarshalBasket e))
                   | (b1, None) \<Rightarrow>
                       (let b2 = b1\<lparr>key := (key b1)\<lparr>kfile := Some f\<rparr>\<rparr> in
                        case ResizeU8 bs1 (sint (objlen (key b2))) of
                          None \<Rightarrow> None
                        | Some bs2 \<Rightarrow>
                            (case Load io (key b2) bs2 of
                               (bs3, Some e) \<Rightarrow> Some (rbk\<lparr>bk := b2, buf := bs3\<rparr>, Some e)
                             | (bs3, None) \<Rightarrow>
                                 (let b3 = b2\<lparr>rbuf := Reset bs3 (ucast (keylen (key b2))) (Some f)\<rparr> in
                                  if 0 < sint eoff then
                                    (case readOffsets b3 of
                                       None \<Rightarrow> None
                                     | Some (b4, e) \<Rightarrow> Some (rbk\<lparr>bk := b4, buf := bs3\<rparr>, e))
                                  else Some (rbk\<lparr>bk := b3, buf := bs3\<rparr>, None))))))))"

text \<open>
  Instances for the examples. The leaf decodes one \<^verbatim>\<open>int32\<close> and sits two bytes into the
  entry. The basket has a key header of three bytes and a payload of twelve bytes, which
  holds, from position 3 on, the count 2 and the two values 5 and 3.
\<close>

definition exampleLeaf :: "unit rleaf" where
  "exampleLeaf = \<lparr>Offset = 2,
     readFromBuffer = (\<lambda>rb. case ReadI32 rb of (v, rb') \<Rightarrow> (rb', Err rb'))\<rparr>"

definition examplePayload :: "byte list" where
  "examplePayload = [0, 0, 0, 2, 0, 0, 0, 5, 0, 0, 0, 3]"

definition exampleKey :: "unit Key" where
  "exampleKey = \<lparr>keylen = 3, objlen = 12, kfile = None\<rparr>"

definition exampleBasket :: "32 word list \<Rightarrow> unit Basket" where
  "exampleBasket offs = \<lparr>key = exampleKey, nevsize = 4, last' = 3, offsets = offs,
     rbuf = Reset examplePayload 3 None\<rparr>"

definition exampleRBasket :: "32 word list \<Rightarrow> unit rbasket" where
  "exampleRBasket offs = \<lparr>id' = 0,
     span' = \<lparr>beg = 0, end' = 0, pos = 0, sz = 0, bkt = None\<rparr>,
     bk = exampleBasket offs, buf = examplePayload\<rparr>"

text \<open>
  A file whose reads succeed at location 0 only, whose basket header decodes to the
  example key with \<^verbatim>\<open>last = 3\<close>, and whose key inflates to the given bytes.
\<close>

definition exampleIO :: "byte list \<Rightarrow> unit riofs" where
  "exampleIO pl = \<lparr>
     ReadAt = (\<lambda>f b seek. if seek = 0 then (b, None) else (b, Some IOError)),
     UnmarshalROOT = (\<lambda>b. (b\<lparr>key := exampleKey, nevsize := 0, last' := 3\<rparr>, None)),
     payload = (\<lambda>k. Inr pl)\<rparr>"

definition exampleSpan :: "64 word \<Rightarrow> 32 word \<Rightarrow> unit Basket option \<Rightarrow> unit rspan" where
  "exampleSpan at n b = \<lparr>beg = 0, end' = 1, pos = at, sz = n, bkt = b\<rparr>"

text \<open>
  The reader-side basket that \<^verbatim>\<open>inflate\<close> leaves for basket \<open>i\<close> read from the example
  file at location 0, when the key inflates to \<open>pl\<close> and the offsets table read
  from it is \<open>offs\<close>.
\<close>

definition exampleInflated :: "64 word \<Rightarrow> byte list \<Rightarrow> 32 word list \<Rightarrow> unit rbasket" where
  "exampleInflated i pl offs = \<lparr>id' = i, span' = exampleSpan 0 12 None,
     bk = \<lparr>key = \<lparr>keylen = 3, objlen = 12, kfile = Some ()\<rparr>, nevsize = 0, last' = 3,
            offsets = offs,
            rbuf = \<lparr>data = pl, cur = 12, err = None, hdr = 3, sictx = Some ()\<rparr>\<rparr>,
     buf = pl\<rparr>"

text \<open>
  The invariant of the spec's data model, in the spec's words: an offsets table "has
  length = entries-in-basket + 1 and is strictly increasing", that is
  \<open>offsets[i] < offsets[i+1]\<close> for all valid \<open>i\<close>.
\<close>

fun strictlyIncreasing :: "32 word list \<Rightarrow> bool" where
  "strictlyIncreasing (x # y # ys) = (sint x < sint y \<and> strictlyIncreasing (y # ys))"
| "strictlyIncreasing xs = True"

definition offsetsTableOK :: "nat \<Rightarrow> 32 word list \<Rightarrow> bool" where
  "offsetsTableOK entries offs = (length offs = entries + 1 \<and> strictlyIncreasing offs)"

section \<open>groot/riofs: keys, directory and file\<close>

text \<open>
  Modelled from the spec: \<^verbatim>\<open>riofs\<close> (\<^verbatim>\<open>Create\<close>, \<^verbatim>\<open>Open\<close>, \<^verbatim>\<open>Put\<close>, \<^verbatim>\<open>Get\<close>, \<^verbatim>\<open>Keys\<close>,
  \<^verbatim>\<open>Close\<close>) is not in src; only its test \<^verbatim>\<open>TestCreate\<close> (groot/rhist/rootio_test.go) and
  its callers are. A Key has a name, a class, a cycle, a seek pointer, a key-header
  length and the compressed and uncompressed lengths; "payload starts at
  seek + key_header_len". The cycle is a counter; the spec gives it no width.
\<close>

record dirKey =
  key_name :: string
  key_class :: string
  key_cycle :: int
  key_seek :: nat
  key_hdrlen :: nat
  key_len :: nat
  key_objlen :: nat

text \<open>
  Modelled from the spec: the Streamer Registry and the Codec Layer, as far as the file
  uses them: the class of an object, \<^verbatim>\<open>Marshal\<close> and \<^verbatim>\<open>Unmarshal\<close> ("keyed by the recorded
  class"), compression and decompression, and the bytes of a key header.
\<close>

record 'v registry =
  classOf :: "'v \<Rightarrow> string"
  Marshal :: "'v \<Rightarrow> byte list"
  Unmarshal :: "string \<Rightarrow> byte list \<Rightarrow> error + 'v"
  compress :: "byte list \<Rightarrow> byte list"
  decompress :: "byte list \<Rightarrow> error + byte list"
  keyHeader :: "string \<Rightarrow> string \<Rightarrow> int \<Rightarrow> byte list"

text \<open>
  Modelled from the spec: the testable properties "Unmarshal(Marshal(v)) == v" for
  every registered class and "decompress(compress(p)) == p"; a value of a registered
  class is one for which they hold.
\<close>

definition registered :: "'v registry \<Rightarrow> 'v \<Rightarrow> bool" where
  "registered reg v =
     (decompress reg (compress reg (Marshal reg v)) = Inr (Marshal reg v)
      \<and> Unmarshal reg (classOf reg v) (Marshal reg v) = Inr v)"

datatype openMode = ForRead | ForWrite

text \<open>
  Modelled from the spec: a File has an open mode, a key index and its bytes; keys are
  "populated at open (read) or appended on Put (write, appended at end-of-file; key
  index rewritten at close)". The storage maps a path to the bytes and the key index
  that \<^verbatim>\<open>Close\<close> left there.
\<close>

record File =
  file_path :: string
  file_mode :: openMode
  file_closed :: bool
  file_keys :: "dirKey list"
  file_bytes :: "byte list"

type_synonym storage = "string \<rightharpoonup> byte list \<times> dirKey list"

definition Create :: "string \<Rightarrow> File" where
  "Create path = \<lparr>file_path = path, file_mode = ForWrite, file_closed = False,
     file_keys = [], file_bytes = []\<rparr>"

definition Open :: "storage \<Rightarrow> string \<Rightarrow> error + File" where
  "Open disk path =
     (case disk path of
        None \<Rightarrow> Inl IOError
      | Some (bs, ks) \<Rightarrow>
          Inr \<lparr>file_path = path, file_mode = ForRead, file_closed = False,
               file_keys = ks, file_bytes = bs\<rparr>)"

definition Keys :: "File \<Rightarrow> dirKey list" where
  "Keys f = file_keys f"

text \<open>Modelled from the spec: "max(existing cycles for name)", zero when there is none.\<close>

fun maxCycle :: "string \<Rightarrow> dirKey list \<Rightarrow> int" where
  "maxCycle n [] = 0"
| "maxCycle n (k # ks) =
     (if key_name k = n then max (key_cycle k) (maxCycle n ks) else maxCycle n ks)"

text \<open>
  Modelled from the spec: \<^verbatim>\<open>Put\<close> "serializes payload via the Streamer Registry,
  compresses via the Codec Layer, appends at end-of-file, assigns
  cycle = 1 + max(existing cycles for name), inserts the index entry". Use after close
  fails \<open>ClosedHandle\<close>, the wrong stream mode fails \<open>InvalidDirectory\<close>.
\<close>

definition Put :: "'v registry \<Rightarrow> File \<Rightarrow> string \<Rightarrow> 'v \<Rightarrow> error + File" where
  "Put reg f name v =
     (if file_closed f then Inl ClosedHandle
      else if file_mode f \<noteq> ForWrite then Inl InvalidDirectory
      else
        let obj = Marshal reg v;
            env = compress reg obj;
            cycle = 1 + maxCycle name (file_keys f);
            h = keyHeader reg name (classOf reg v) cycle;
            k = \<lparr>key_name = name, key_class = classOf reg v, key_cycle = cycle,
                 key_seek = length (file_bytes f), key_hdrlen = length h,
                 key_len = length env, key_objlen = length obj\<rparr>
        in Inr (f\<lparr>file_keys := file_keys f @ [k], file_bytes := file_bytes f @ h @ env\<rparr>))"

text \<open>
  Modelled from the spec: \<^verbatim>\<open>Get(name[, cycle])\<close> "resolves highest cycle if unspecified;
  fails NotFound if absent; lazily reads and decompresses the payload, then unmarshals it
  via the Streamer Registry keyed by the recorded class"; "a CompressedBlock
  decompresses to exactly its declared length", a size mismatch is a corruption error.
\<close>

definition lookupKey :: "File \<Rightarrow> string \<Rightarrow> int \<Rightarrow> dirKey option" where
  "lookupKey f name c = find (\<lambda>k. key_name k = name \<and> key_cycle k = c) (file_keys f)"

definition keyPayload :: "File \<Rightarrow> dirKey \<Rightarrow> byte list" where
  "keyPayload f k = take (key_len k) (drop (key_seek k + key_hdrlen k) (file_bytes f))"

definition Get :: "'v registry \<Rightarrow> File \<Rightarrow> string \<Rightarrow> int option \<Rightarrow> error + 'v" where
  "Get reg f name cycle =
     (if file_closed f then Inl ClosedHandle
      else
        let c = (case cycle of None \<Rightarrow> maxCycle name (file_keys f) | Some c \<Rightarrow> c) in
        case lookupKey f name c of
          None \<Rightarrow> Inl NotFound
        | Some k \<Rightarrow>
            (case decompress reg (keyPayload f k) of
               Inl e \<Rightarrow> Inl e
             | Inr obj \<Rightarrow>
                 if length obj \<noteq> key_objlen k then Inl CorruptBlock
                 else Unmarshal reg (key_class k) obj))"

text \<open>
  Modelled from the spec: \<^verbatim>\<open>Close\<close> in write mode "appends the final streamer-info
  record and key index"; the storage then holds the bytes and the index under the path.
  The storage of the model does not fail to flush.
\<close>

definition Close :: "File \<Rightarrow> storage \<Rightarrow> error + File \<times> storage" where
  "Close f disk =
     (if file_closed f then Inl ClosedHandle
      else if file_mode f = ForWrite
        then Inr (f\<lparr>file_closed := True\<rparr>, disk(file_path f \<mapsto> (file_bytes f, file_keys f)))
        else Inr (f\<lparr>file_closed := True\<rparr>, disk))"

text \<open>A sequence of \<^verbatim>\<open>Put\<close> calls, as the loop of \<^verbatim>\<open>TestCreate\<close> makes them.\<close>

fun putAll :: "'v registry \<Rightarrow> File \<Rightarrow> (string \<times> 'v) list \<Rightarrow> error + File" where
  "putAll reg f [] = Inr f"
| "putAll reg f ((n, v) # kvs) =
     (case Put reg f n v of Inl e \<Rightarrow> Inl e | Inr f' \<Rightarrow> putAll reg f' kvs)"

text \<open>
  The index of \<open>f\<close> has, at (name, cycle), a key whose class and lengths are those of
  \<open>v\<close> and whose payload in the file is the compressed serialization of \<open>v\<close>.
\<close>

definition holds :: "'v registry \<Rightarrow> File \<Rightarrow> string \<Rightarrow> int \<Rightarrow> 'v \<Rightarrow> bool" where
  "holds reg f n c v =
     (case lookupKey f n c of
        None \<Rightarrow> False
      | Some k \<Rightarrow>
          key_class k = classOf reg v
          \<and> key_objlen k = length (Marshal reg v)
          \<and> key_seek k + key_hdrlen k + key_len k \<le> length (file_bytes f)
          \<and> keyPayload f k = compress reg (Marshal reg v))"

text \<open>An instance for the examples: objects are numbers of class "TAxis", serialized
  as two bytes, most significant first; the codec reverses the bytes; a key header is two
  bytes long.\<close>

definition exampleRegistry :: "nat registry" where
  "exampleRegistry = \<lparr>
     classOf = (\<lambda>v. ''TAxis''),
     Marshal = (\<lambda>v. [word_of_nat (v div 256), word_of_nat v]),
     Unmarshal = (\<lambda>cls bs.
        if cls \<noteq> ''TAxis'' then Inl UnknownClass
        else case bs of [a, b] \<Rightarrow> Inr (unat a * 256 + unat b) | _ \<Rightarrow> Inl CorruptBlock),
     compress = rev,
     decompress = (\<lambda>bs. Inr (rev bs)),
     keyHeader = (\<lambda>n cls c. [0, 0])\<rparr>"

section \<open>Properties\<close>

subsection \<open>groot/rarrow: the reference count\<close>

lemma Release_alive:
  assumes "Release tbl = Some (tbl', now)"
  shows "now = [] \<and> cols tbl' = cols tbl \<or> now = cols tbl \<and> cols tbl' = []"
  using assms by (auto simp: Release_def split: if_splits)

lemma runCalls_freed_once:
  assumes "runCalls cs (tbl, freed) = Some (tbl', freed')"
      and "freed = [] \<and> cols tbl = xs \<or> freed = xs \<and> cols tbl = []"
  shows "freed' = [] \<and> cols tbl' = xs \<or> freed' = xs \<and> cols tbl' = []"
  using assms
proof (induction cs arbitrary: tbl freed)
  case Nil
  then show ?case by simp
next
  case (Cons c cs)
  show ?case
  proof (cases c)
    case CallRetain
    with Cons.prems have "runCalls cs (Retain tbl, freed) = Some (tbl', freed')"
      by simp
    moreover have "freed = [] \<and> cols (Retain tbl) = xs \<or> freed = xs \<and> cols (Retain tbl) = []"
      using Cons.prems(2) by (simp add: Retain_def)
    ultimately show ?thesis by (rule Cons.IH)
  next
    case CallRelease
    with Cons.prems(1) obtain t1 now where r: "Release tbl = Some (t1, now)"
      and run: "runCalls cs (t1, freed @ now) = Some (tbl', freed')"
      by (auto split: option.splits)
    have "freed @ now = [] \<and> cols t1 = xs \<or> freed @ now = xs \<and> cols t1 = []"
      using Release_alive [OF r] Cons.prems(2) by auto
    with run show ?thesis by (rule Cons.IH)
  qed
qed

text \<open>
  C9. On the table that \<^verbatim>\<open>NewTable\<close> returns, \<^verbatim>\<open>Retain\<close> adds exactly one to the
  reference count; \<^verbatim>\<open>Release\<close> panics when the count is zero or negative and otherwise
  subtracts exactly one; the call that brings the count to zero invokes \<^verbatim>\<open>Release\<close> on
  every column, in order, and clears the column slice, and a call that leaves the count
  non-zero touches no column. Over any sequence of calls on a new table, the columns are
  therefore released never or exactly once, as a whole.
\<close>

theorem rootTable_refcount:
  "refs (NewTable cs) = 1 \<and> cols (NewTable cs) = cs
   \<and> refs (Retain tbl) = refs tbl + 1 \<and> cols (Retain tbl) = cols tbl
   \<and> (sint (refs tbl) \<le> 0 \<longrightarrow> Release tbl = None)
   \<and> (0 < sint (refs tbl) \<longrightarrow>
        (\<exists>tbl' now. Release tbl = Some (tbl', now)
           \<and> refs tbl' = refs tbl - 1 \<and> sint (refs tbl') = sint (refs tbl) - 1
           \<and> (refs tbl' = 0 \<longrightarrow> now = cols tbl \<and> cols tbl' = [])
           \<and> (refs tbl' \<noteq> 0 \<longrightarrow> now = [] \<and> cols tbl' = cols tbl)))
   \<and> (runCalls calls (NewTable cs, []) = Some (end, freed) \<longrightarrow>
        freed = [] \<and> cols end = cs \<or> freed = cs \<and> cols end = [])"
proof -
  have dec: "sint (refs tbl - 1) = sint (refs tbl) - 1" if "0 < sint (refs tbl)"
  proof -
    have "sint (refs tbl - 1) = signed_take_bit 63 (sint (refs tbl) - 1)"
      by (simp add: sint_word_ariths)
    moreover have "- (2 ^ 63) \<le> sint (refs tbl) - 1" using that by simp
    moreover have "sint (refs tbl) - 1 < 2 ^ 63"
      using sint_lt [of "refs tbl"] by simp
    ultimately show ?thesis
      by (simp add: signed_take_bit_int_eq_self)
  qed
  have rel: "0 < sint (refs tbl) \<longrightarrow>
        (\<exists>tbl' now. Release tbl = Some (tbl', now)
           \<and> refs tbl' = refs tbl - 1 \<and> sint (refs tbl') = sint (refs tbl) - 1
           \<and> (refs tbl' = 0 \<longrightarrow> now = cols tbl \<and> cols tbl' = [])
           \<and> (refs tbl' \<noteq> 0 \<longrightarrow> now = [] \<and> cols tbl' = cols tbl))"
    using dec by (simp add: Release_def)
  have run: "runCalls calls (NewTable cs, []) = Some (end, freed) \<longrightarrow>
        freed = [] \<and> cols end = cs \<or> freed = cs \<and> cols end = []"
  proof
    assume a: "runCalls calls (NewTable cs, []) = Some (end, freed)"
    have "[] = [] \<and> cols (NewTable cs) = cs \<or> [] = cs \<and> cols (NewTable cs) = []"
      by (simp add: NewTable_def)
    with a show "freed = [] \<and> cols end = cs \<or> freed = cs \<and> cols end = []"
      by (rule runCalls_freed_once)
  qed
  show ?thesis
    using rel run by (simp add: NewTable_def Retain_def Release_def)
qed

theorem rootTable_refcount_witness:
  "0 < sint (refs (NewTable [1::nat, 2]))
   \<and> Release (NewTable [1::nat, 2]) = Some (\<lparr>refs = 0, cols = []\<rparr>, [1, 2])
   \<and> sint (refs \<lparr>refs = 0, cols = [1::nat, 2]\<rparr>) \<le> 0
   \<and> Release \<lparr>refs = 0, cols = [1::nat, 2]\<rparr> = None
   \<and> runCalls [CallRetain, CallRelease, CallRelease] (NewTable [1::nat, 2], [])
       = Some (\<lparr>refs = 0, cols = []\<rparr>, [1, 2])"
  using rootTable_refcount [where cs = "[1::nat, 2]" and tbl = "NewTable [1::nat, 2]"
      and calls = "[CallRetain, CallRelease, CallRelease]"
      and ?end = "\<lparr>refs = 0, cols = []\<rparr>" and freed = "[1, 2]"]
    rootTable_refcount [where cs = "[1::nat, 2]" and tbl = "\<lparr>refs = 0, cols = [1::nat, 2]\<rparr>"
      and calls = "[]" and ?end = "NewTable [1::nat, 2]" and freed = "[]"]
  by (simp add: NewTable_def Retain_def Release_def)

subsection \<open>fwk/hbooksvc: the guard of the booking functions\<close>

text \<open>
  C10. Unless the lifecycle state of the service lies strictly between
  \<^verbatim>\<open>fsm.Configured\<close> and \<^verbatim>\<open>fsm.Running\<close>, each of \<^verbatim>\<open>BookH1D\<close>, \<^verbatim>\<open>BookH2D\<close>, \<^verbatim>\<open>BookP1D\<close> and
  \<^verbatim>\<open>BookS2D\<close> returns the zero object with the error "can not book histograms during
  FSM-state", and the service (its four maps and its streams) is as before the call.
\<close>

theorem Book_outside_window:
  assumes "\<not> (Configured env < FSMState svc \<and> FSMState svc < Running env)"
  shows "BookH1D env svc name nbins low high
           = Some (\<lparr>H1D_ID = [], H1D_Hist = None\<rparr>, Some (CanNotBook (FSMState svc)), svc)
       \<and> BookH2D env svc name nx xmin xmax ny ymin ymax
           = Some (\<lparr>H2D_ID = [], H2D_Hist = None\<rparr>, Some (CanNotBook (FSMState svc)), svc)
       \<and> BookP1D env svc name nbins low high
           = Some (\<lparr>P1D_ID = [], P1D_Profile = None\<rparr>, Some (CanNotBook (FSMState svc)), svc)
       \<and> BookS2D env svc name
           = Some (\<lparr>S2D_ID = [], S2D_Scatter = None\<rparr>, Some (CanNotBook (FSMState svc)), svc)"
  using assms by (simp add: BookH1D_def BookH2D_def BookP1D_def BookS2D_def)

theorem Book_outside_window_witness:
  "\<not> (Configured exampleFwk < FSMState (exampleSvc 5) \<and> FSMState (exampleSvc 5) < Running exampleFwk)
   \<and> BookH1D exampleFwk (exampleSvc 5) ''/histo'' 10 0 1
       = Some (\<lparr>H1D_ID = [], H1D_Hist = None\<rparr>, Some (CanNotBook 5), exampleSvc 5)
   \<and> BookH2D exampleFwk (exampleSvc 5) ''/histo'' 10 0 1 10 0 1
       = Some (\<lparr>H2D_ID = [], H2D_Hist = None\<rparr>, Some (CanNotBook 5), exampleSvc 5)
   \<and> BookP1D exampleFwk (exampleSvc 5) ''/histo'' 10 0 1
       = Some (\<lparr>P1D_ID = [], P1D_Profile = None\<rparr>, Some (CanNotBook 5), exampleSvc 5)
   \<and> BookS2D exampleFwk (exampleSvc 5) ''/histo''
       = Some (\<lparr>S2D_ID = [], S2D_Scatter = None\<rparr>, Some (CanNotBook 5), exampleSvc 5)"
proof -
  have g: "\<not> (Configured exampleFwk < FSMState (exampleSvc 5)
             \<and> FSMState (exampleSvc 5) < Running exampleFwk)"
    by (simp add: exampleFwk_def exampleSvc_def)
  have s: "FSMState (exampleSvc 5) = 5"
    by (simp add: exampleSvc_def)
  show ?thesis
    using g Book_outside_window [OF g, of "''/histo''" 10 0 1 10 0 1 10 0 1] by (simp add: s)
qed

text \<open>Inside the window the guard lets the call through: a temporary histogram is
  registered under its name.\<close>

lemma split_histo: "split ''/histo'' = Some ([], ''histo'')"
  by (simp add: split_def TrimPrefix_def TrimSuffix_def)

lemma BookH1D_inside_window:
  "BookH1D exampleFwk (exampleSvc 3) ''/histo'' 10 0 1
     = Some (\<lparr>H1D_ID = ''histo'', H1D_Hist = Some ''histo''\<rparr>, None,
             (exampleSvc 3)\<lparr>h1ds := [''histo'' \<mapsto> \<lparr>H1D_ID = ''histo'', H1D_Hist = Some ''histo''\<rparr>]\<rparr>)"
  by (simp add: BookH1D_def split_histo attach_def fullname_def exampleFwk_def exampleSvc_def)

subsection \<open>groot/rtree: the offset of an entry in the basket\<close>

lemma sint_add64:
  fixes x y :: "64 word"
  assumes "- (2 ^ 63) \<le> sint x + sint y" "sint x + sint y < 2 ^ 63"
  shows "sint (x + y) = sint x + sint y"
proof -
  have "sint (x + y) = signed_take_bit 63 (sint x + sint y)"
    by (simp add: sint_word_ariths)
  with assms show ?thesis
    by (simp add: signed_take_bit_int_eq_self)
qed

lemma sint_mult64:
  fixes x y :: "64 word"
  assumes "- (2 ^ 63) \<le> sint x * sint y" "sint x * sint y < 2 ^ 63"
  shows "sint (x * y) = sint x * sint y"
proof -
  have "sint (x * y) = signed_take_bit 63 (sint x * sint y)"
    by (simp add: sint_word_ariths)
  with assms show ?thesis
    by (simp add: signed_take_bit_int_eq_self)
qed

lemma sint_scast_32_64: "sint (scast (k :: 32 word) :: 64 word) = sint k"
  by (simp add: sint_up_scast is_up)

lemma sint32_bounds: "- (2 ^ 31) \<le> sint (k :: 32 word) \<and> sint k < 2 ^ 31"
  using sint_ge [of k] sint_lt [of k] by simp

lemma fixed_offset_int:
  fixes entry nev ofs :: "64 word" and kl :: "32 word"
  assumes e: "0 \<le> sint entry" "sint entry < 2 ^ 31"
      and n: "0 \<le> sint nev" "sint nev < 2 ^ 31"
      and o: "0 \<le> sint ofs" "sint ofs < 2 ^ 31"
  shows "sint (entry * nev + ofs + scast kl) = sint entry * sint nev + sint ofs + sint kl"
proof -
  have p0: "0 \<le> sint entry * sint nev" using e n by simp
  have "sint entry * sint nev \<le> 2 ^ 31 * 2 ^ 31"
    using e n by (intro mult_mono) simp_all
  then have p1: "sint entry * sint nev \<le> 2 ^ 62" by simp
  have m: "sint (entry * nev) = sint entry * sint nev"
    using p0 p1 by (intro sint_mult64) simp_all
  have a1: "sint (entry * nev + ofs) = sint entry * sint nev + sint ofs"
    using sint_add64 [of "entry * nev" ofs] m p0 p1 o by simp
  have k: "- (2 ^ 31) \<le> sint kl \<and> sint kl < 2 ^ 31" by (rule sint32_bounds)
  show ?thesis
    using sint_add64 [of "entry * nev + ofs" "scast kl"] a1 p0 p1 o k
    by (simp add: sint_scast_32_64)
qed

lemma table_offset_int:
  fixes ofs :: "64 word" and t :: "32 word"
  assumes o: "0 \<le> sint ofs" "sint ofs < 2 ^ 31"
  shows "sint (scast t + ofs) = sint t + sint ofs"
  using sint_add64 [of "scast t" ofs] sint32_bounds [of t] o
  by (simp add: sint_scast_32_64)

lemma Pos_SetPos: "err rb = None \<Longrightarrow> Pos (SetPos off rb) = sint off"
  by (simp add: Pos_def SetPos_def)

text \<open>
  C1. For every entry and leaf, \<^verbatim>\<open>loadRLeaf\<close> computes the byte offset of the entry:
  when the basket has no offsets table, as
  \<open>entry * element_size + leaf.offset + key_header_len\<close> (here \<open>nevsize\<close>, \<open>Offset\<close>
  and \<open>keylen\<close>); when the table is there and has an element for the entry, as that
  element plus the leaf's offset. It then seeks the cursor to that offset, so that the
  cursor's position is the offset, and returns what the leaf's typed decode returns on
  that cursor. The offset is computed in \<^verbatim>\<open>int64\<close>; for an entry, an element size and a
  leaf offset below \<open>2^31\<close> it is the integer that the formula denotes.
\<close>

theorem loadRLeaf_offset:
  "(offsets (bk rbk) = [] \<longrightarrow>
      (let off = entry * nevsize (bk rbk) + Offset leaf + scast (keylen (key (bk rbk))) in
         loadRLeaf rbk entry leaf =
           (case readFromBuffer leaf (SetPos off (rbuf (bk rbk))) of
              (rb, e) \<Rightarrow> Some (rbk\<lparr>bk := (bk rbk)\<lparr>rbuf := rb\<rparr>\<rparr>, e))
       \<and> (err (rbuf (bk rbk)) = None \<longrightarrow> Pos (SetPos off (rbuf (bk rbk))) = sint off)
       \<and> (0 \<le> sint entry \<and> sint entry < 2 ^ 31
            \<and> 0 \<le> sint (nevsize (bk rbk)) \<and> sint (nevsize (bk rbk)) < 2 ^ 31
            \<and> 0 \<le> sint (Offset leaf) \<and> sint (Offset leaf) < 2 ^ 31 \<longrightarrow>
          sint off = sint entry * sint (nevsize (bk rbk)) + sint (Offset leaf)
                       + sint (keylen (key (bk rbk))))))
   \<and> (offsets (bk rbk) \<noteq> [] \<and> 0 \<le> sint entry \<and> sint entry < int (length (offsets (bk rbk))) \<longrightarrow>
      (let off = scast (offsets (bk rbk) ! nat (sint entry)) + Offset leaf in
         loadRLeaf rbk entry leaf =
           (case readFromBuffer leaf (SetPos off (rbuf (bk rbk))) of
              (rb, e) \<Rightarrow> Some (rbk\<lparr>bk := (bk rbk)\<lparr>rbuf := rb\<rparr>\<rparr>, e))
       \<and> (err (rbuf (bk rbk)) = None \<longrightarrow> Pos (SetPos off (rbuf (bk rbk))) = sint off)
       \<and> (0 \<le> sint (Offset leaf) \<and> sint (Offset leaf) < 2 ^ 31 \<longrightarrow>
          sint off = sint (offsets (bk rbk) ! nat (sint entry)) + sint (Offset leaf))))"
proof (intro conjI impI)
  assume a: "offsets (bk rbk) = []"
  show "let off = entry * nevsize (bk rbk) + Offset leaf + scast (keylen (key (bk rbk))) in
         loadRLeaf rbk entry leaf =
           (case readFromBuffer leaf (SetPos off (rbuf (bk rbk))) of
              (rb, e) \<Rightarrow> Some (rbk\<lparr>bk := (bk rbk)\<lparr>rbuf := rb\<rparr>\<rparr>, e))
       \<and> (err (rbuf (bk rbk)) = None \<longrightarrow> Pos (SetPos off (rbuf (bk rbk))) = sint off)
       \<and> (0 \<le> sint entry \<and> sint entry < 2 ^ 31
            \<and> 0 \<le> sint (nevsize (bk rbk)) \<and> sint (nevsize (bk rbk)) < 2 ^ 31
            \<and> 0 \<le> sint (Offset leaf) \<and> sint (Offset leaf) < 2 ^ 31 \<longrightarrow>
          sint off = sint entry * sint (nevsize (bk rbk)) + sint (Offset leaf)
                       + sint (keylen (key (bk rbk))))"
    unfolding Let_def
  proof (intro conjI impI)
    show "loadRLeaf rbk entry leaf =
           (case readFromBuffer leaf (SetPos (entry * nevsize (bk rbk) + Offset leaf
                  + scast (keylen (key (bk rbk)))) (rbuf (bk rbk))) of
              (rb, e) \<Rightarrow> Some (rbk\<lparr>bk := (bk rbk)\<lparr>rbuf := rb\<rparr>\<rparr>, e))"
      using a by (simp add: loadRLeaf_def)
  next
    assume "err (rbuf (bk rbk)) = None"
    then show "Pos (SetPos (entry * nevsize (bk rbk) + Offset leaf
                  + scast (keylen (key (bk rbk)))) (rbuf (bk rbk)))
               = sint (entry * nevsize (bk rbk) + Offset leaf + scast (keylen (key (bk rbk))))"
      by (rule Pos_SetPos)
  next
    assume "0 \<le> sint entry \<and> sint entry < 2 ^ 31
            \<and> 0 \<le> sint (nevsize (bk rbk)) \<and> sint (nevsize (bk rbk)) < 2 ^ 31
            \<and> 0 \<le> sint (Offset leaf) \<and> sint (Offset leaf) < 2 ^ 31"
    then show "sint (entry * nevsize (bk rbk) + Offset leaf + scast (keylen (key (bk rbk))))
               = sint entry * sint (nevsize (bk rbk)) + sint (Offset leaf)
                   + sint (keylen (key (bk rbk)))"
      by (intro fixed_offset_int) simp_all
  qed
next
  assume a: "offsets (bk rbk) \<noteq> [] \<and> 0 \<le> sint entry
             \<and> sint entry < int (length (offsets (bk rbk)))"
  show "let off = scast (offsets (bk rbk) ! nat (sint entry)) + Offset leaf in
         loadRLeaf rbk entry leaf =
           (case readFromBuffer leaf (SetPos off (rbuf (bk rbk))) of
              (rb, e) \<Rightarrow> Some (rbk\<lparr>bk := (bk rbk)\<lparr>rbuf := rb\<rparr>\<rparr>, e))
       \<and> (err (rbuf (bk rbk)) = None \<longrightarrow> Pos (SetPos off (rbuf (bk rbk))) = sint off)
       \<and> (0 \<le> sint (Offset leaf) \<and> sint (Offset leaf) < 2 ^ 31 \<longrightarrow>
          sint off = sint (offsets (bk rbk) ! nat (sint entry)) + sint (Offset leaf))"
    unfolding Let_def
  proof (intro conjI impI)
    show "loadRLeaf rbk entry leaf =
           (case readFromBuffer leaf (SetPos (scast (offsets (bk rbk) ! nat (sint entry))
                  + Offset leaf) (rbuf (bk rbk))) of
              (rb, e) \<Rightarrow> Some (rbk\<lparr>bk := (bk rbk)\<lparr>rbuf := rb\<rparr>\<rparr>, e))"
      using a by (simp add: loadRLeaf_def)
  next
    assume "err (rbuf (bk rbk)) = None"
    then show "Pos (SetPos (scast (offsets (bk rbk) ! nat (sint entry)) + Offset leaf)
                  (rbuf (bk rbk)))
               = sint (scast (offsets (bk rbk) ! nat (sint entry)) + Offset leaf :: 64 word)"
      by (rule Pos_SetPos)
  next
    assume "0 \<le> sint (Offset leaf) \<and> sint (Offset leaf) < 2 ^ 31"
    then show "sint (scast (offsets (bk rbk) ! nat (sint entry)) + Offset leaf :: 64 word)
               = sint (offsets (bk rbk) ! nat (sint entry)) + sint (Offset leaf)"
      by (intro table_offset_int) simp_all
  qed
qed

theorem loadRLeaf_offset_witness:
  "offsets (bk (exampleRBasket [])) = []
   \<and> map_option snd (loadRLeaf (exampleRBasket []) 1 exampleLeaf) = Some None
   \<and> map_option (\<lambda>x. Pos (rbuf (bk (fst x)))) (loadRLeaf (exampleRBasket []) 1 exampleLeaf) = Some 13
   \<and> offsets (bk (exampleRBasket [3, 7])) \<noteq> []
   \<and> 0 \<le> sint (1 :: 64 word) \<and> sint (1 :: 64 word) < int (length (offsets (bk (exampleRBasket [3, 7]))))
   \<and> map_option snd (loadRLeaf (exampleRBasket [3, 7]) 1 exampleLeaf) = Some None
   \<and> map_option (\<lambda>x. Pos (rbuf (bk (fst x)))) (loadRLeaf (exampleRBasket [3, 7]) 1 exampleLeaf) = Some 13"
  using loadRLeaf_offset [of "exampleRBasket []" 1 exampleLeaf]
    loadRLeaf_offset [of "exampleRBasket [3, 7]" 1 exampleLeaf]
  by (simp add: exampleRBasket_def exampleBasket_def exampleKey_def exampleLeaf_def
      examplePayload_def Reset_def SetPos_def ReadI32_def window_def Err_def Pos_def Let_def)

text \<open>Outside the offsets table the index expression panics: no seek and no decode.\<close>

lemma loadRLeaf_outside_table:
  "loadRLeaf (exampleRBasket [3, 7]) 2 exampleLeaf = None"
  by (simp add: loadRLeaf_def exampleRBasket_def exampleBasket_def)

subsection \<open>groot/rbytes: the sticky error of the cursor\<close>

lemma ReadI32_err_mono: "err rb = Some e \<Longrightarrow> err (snd (ReadI32 rb)) = Some e"
  by (simp add: ReadI32_def)

lemma ReadArrayI32_err_mono: "err rb = Some e \<Longrightarrow> err (snd (ReadArrayI32 arr rb)) = Some e"
  by (simp add: ReadArrayI32_def)

lemma ReadI32_ok_before: "err (snd (ReadI32 rb)) = None \<Longrightarrow> err rb = None"
  by (auto simp: ReadI32_def split: if_splits option.splits)

lemma ReadArrayI32_ok_before: "err (snd (ReadArrayI32 arr rb)) = None \<Longrightarrow> err rb = None"
  by (auto simp: ReadArrayI32_def split: if_splits option.splits)

text \<open>
  C6. Once an operation on the cursor has failed, the cursor is in the sticky-error
  state: every further operation (\<^verbatim>\<open>ReadI32\<close>, \<^verbatim>\<open>ReadArrayI32\<close>, \<^verbatim>\<open>SetPos\<close>) leaves the
  cursor as it is, \<^verbatim>\<open>ReadI32\<close> returns zero and \<^verbatim>\<open>ReadArrayI32\<close> leaves the array alone,
  and \<^verbatim>\<open>Err\<close> keeps returning the first error. A read that lacks bytes puts a sound
  cursor into that state and returns zero. For the chain \<^verbatim>\<open>ReadI32\<close> then
  \<^verbatim>\<open>ReadArrayI32\<close>, the error asked once at the end is the first error of the chain, and
  when it is nil neither step has failed.
\<close>

theorem cursor_sticky_error:
  "(err rb = Some e \<longrightarrow>
      ReadI32 rb = (0, rb) \<and> ReadArrayI32 arr rb = (arr, rb) \<and> SetPos p rb = rb
      \<and> Err rb = Some e)
   \<and> (err rb = None \<and> window rb 4 = None \<longrightarrow>
        fst (ReadI32 rb) = 0 \<and> Err (snd (ReadI32 rb)) = Some IOError)
   \<and> (Err rb = Some e \<longrightarrow> Err (snd (ReadArrayI32 arr (snd (ReadI32 rb)))) = Some e)
   \<and> (Err (snd (ReadI32 rb)) = Some e \<longrightarrow>
        ReadArrayI32 arr (snd (ReadI32 rb)) = (arr, snd (ReadI32 rb))
        \<and> Err (snd (ReadArrayI32 arr (snd (ReadI32 rb)))) = Some e)
   \<and> (Err (snd (ReadArrayI32 arr (snd (ReadI32 rb)))) = None \<longrightarrow>
        Err (snd (ReadI32 rb)) = None \<and> Err rb = None)"
proof (intro conjI impI)
  assume "err rb = Some e"
  then show "ReadI32 rb = (0, rb)" by (simp add: ReadI32_def)
next
  assume "err rb = Some e"
  then show "ReadArrayI32 arr rb = (arr, rb)" by (simp add: ReadArrayI32_def)
next
  assume "err rb = Some e"
  then show "SetPos p rb = rb" by (simp add: SetPos_def)
next
  assume "err rb = Some e"
  then show "Err rb = Some e" by (simp add: Err_def)
next
  assume "err rb = None \<and> window rb 4 = None"
  then show "fst (ReadI32 rb) = 0" by (simp add: ReadI32_def)
next
  assume "err rb = None \<and> window rb 4 = None"
  then show "Err (snd (ReadI32 rb)) = Some IOError" by (simp add: ReadI32_def Err_def)
next
  assume "Err rb = Some e"
  then have "err (snd (ReadI32 rb)) = Some e"
    by (simp add: Err_def ReadI32_err_mono)
  then show "Err (snd (ReadArrayI32 arr (snd (ReadI32 rb)))) = Some e"
    by (simp add: Err_def ReadArrayI32_err_mono)
next
  assume "Err (snd (ReadI32 rb)) = Some e"
  then show "ReadArrayI32 arr (snd (ReadI32 rb)) = (arr, snd (ReadI32 rb))"
    by (simp add: Err_def ReadArrayI32_def)
next
  assume "Err (snd (ReadI32 rb)) = Some e"
  then show "Err (snd (ReadArrayI32 arr (snd (ReadI32 rb)))) = Some e"
    by (simp add: Err_def ReadArrayI32_err_mono)
next
  assume a: "Err (snd (ReadArrayI32 arr (snd (ReadI32 rb)))) = None"
  then show "Err (snd (ReadI32 rb)) = None"
    unfolding Err_def by (rule ReadArrayI32_ok_before)
  then show "Err rb = None"
    unfolding Err_def by (rule ReadI32_ok_before)
qed

theorem cursor_sticky_error_witness:
  "err (Reset [0, 0, 0, 2] 0 (None :: unit option)) = None
   \<and> window (SetPos 1 (Reset [0, 0, 0, 2] 0 (None :: unit option))) 4 = None
   \<and> ReadI32 (SetPos 1 (Reset [0, 0, 0, 2] 0 (None :: unit option)))
       = (0, \<lparr>data = [0, 0, 0, 2], cur = 1, err = Some IOError, hdr = 0, sictx = None\<rparr>)
   \<and> ReadI32 \<lparr>data = [0, 0, 0, 2], cur = 0, err = Some IOError, hdr = 0, sictx = None :: unit option\<rparr>
       = (0, \<lparr>data = [0, 0, 0, 2], cur = 0, err = Some IOError, hdr = 0, sictx = None\<rparr>)
   \<and> Err (snd (ReadArrayI32 [7, 7] (snd (ReadI32 (SetPos 1 (Reset [0, 0, 0, 2] 0 (None :: unit option)))))))
       = Some IOError
   \<and> Err (snd (ReadArrayI32 [] (snd (ReadI32 (Reset [0, 0, 0, 2] 0 (None :: unit option)))))) = None"
  using
    cursor_sticky_error [of "\<lparr>data = [0, 0, 0, 2], cur = 0, err = Some IOError, hdr = 0, sictx = None :: unit option\<rparr>"
      IOError "[7, 7]" 0]
    cursor_sticky_error [of "SetPos 1 (Reset [0, 0, 0, 2] 0 (None :: unit option))" IOError "[7, 7]" 0]
    cursor_sticky_error [of "Reset [0, 0, 0, 2] 0 (None :: unit option)" IOError "[]" 0]
  by (simp add: Reset_def SetPos_def ReadI32_def ReadArrayI32_def window_def Err_def be32_def)

subsection \<open>groot/rtree: inflating a basket\<close>

lemma inflate_id_span:
  assumes "inflate io name i sp eoff f rbk0 = Some (rbk', e)"
  shows "id' rbk' = i \<and> span' rbk' = sp"
  using assms unfolding inflate_def Let_def
  by (auto split: option.splits prod.splits if_splits)

lemma inflate_default_success:
  assumes "inflate io name i sp eoff f rbk0 = Some (rbk', None)" "sz sp \<noteq> 0" "0 < sint eoff"
  shows "\<exists>b3. readOffsets b3 = Some (bk rbk', None)
           \<and> rbuf b3 = Reset (buf rbk') (keylen (key b3)) (Some f)"
  using assms unfolding inflate_def Let_def
  by (auto split: option.splits prod.splits if_splits)

lemma length_beI32s: "length (beI32s bs) = length bs div 4"
  by (induction bs rule: beI32s.induct) simp_all

lemma Resize_length: "Resize sli n = Some xs \<Longrightarrow> int (length xs) = n"
  by (auto simp: Resize_def split: if_splits)

lemma readOffsets_success:
  assumes ro: "readOffsets b = Some (b', None)" and ok: "err (rbuf b) = None"
  shows "0 \<le> sint (last' b) - uint (hdr (rbuf b))
       \<and> sint (last' b) - uint (hdr (rbuf b)) + 4 \<le> int (length (data (rbuf b)))
       \<and> (let start = sint (last' b) - uint (hdr (rbuf b));
               n = sint (hd (beI32s (take 4 (drop (nat start) (data (rbuf b))))))
           in 0 \<le> n \<and> start + 4 + 4 * n \<le> int (length (data (rbuf b)))
              \<and> b' = b\<lparr>offsets := beI32s (take (nat (4 * n)) (drop (nat (start + 4)) (data (rbuf b)))),
                        rbuf := (rbuf b)\<lparr>cur := start + 4 + 4 * n\<rparr>\<rparr>)"
proof -
  let ?rb1 = "SetPos (last' b) (rbuf b)"
  let ?start = "sint (last' b) - uint (hdr (rbuf b))"
  have rb1: "?rb1 = (rbuf b)\<lparr>cur := ?start\<rparr>"
    using ok by (simp add: SetPos_def)
  obtain n rb2 where r1: "ReadI32 ?rb1 = (n, rb2)" by (cases "ReadI32 ?rb1")
  from ro r1 obtain offs where rs: "ResizeI32 (offsets b) (sint n) = Some offs"
    by (auto simp: readOffsets_def Let_def split: option.splits)
  obtain offs' rb3 where r2: "ReadArrayI32 offs rb2 = (offs', rb3)"
    by (cases "ReadArrayI32 offs rb2")
  from ro r1 rs r2 have b': "b' = b\<lparr>offsets := offs', rbuf := rb3\<rparr>" and e3: "err rb3 = None"
    by (auto simp: readOffsets_def Let_def Err_def)
  have e2: "err rb2 = None"
    using ReadArrayI32_ok_before [of offs rb2] r2 e3 by simp
  have len: "int (length offs) = sint n"
    using rs by (simp add: ResizeI32_def Resize_length)
  from r1 e2 rb1 ok obtain wbs where w1: "window ((rbuf b)\<lparr>cur := ?start\<rparr>) 4 = Some wbs"
    and n: "n = hd (beI32s wbs)" and rb2: "rb2 = (rbuf b)\<lparr>cur := ?start + 4\<rparr>"
    by (auto simp: ReadI32_def split: option.splits)
  from w1 have s0: "0 \<le> ?start" and s4: "?start + 4 \<le> int (length (data (rbuf b)))"
    and wbs: "wbs = take 4 (drop (nat ?start) (data (rbuf b)))"
    by (auto simp: window_def split: if_splits)
  from r2 e3 rb2 ok len obtain abs where w2: "window ((rbuf b)\<lparr>cur := ?start + 4\<rparr>) (4 * sint n) = Some abs"
    and offs': "offs' = beI32s abs" and rb3: "rb3 = (rbuf b)\<lparr>cur := ?start + 4 + 4 * sint n\<rparr>"
    by (auto simp: ReadArrayI32_def split: option.splits)
  from w2 have n0: "0 \<le> sint n" and sn: "?start + 4 + 4 * sint n \<le> int (length (data (rbuf b)))"
    and abs: "abs = take (nat (4 * sint n)) (drop (nat (?start + 4)) (data (rbuf b)))"
    by (auto simp: window_def split: if_splits)
  show ?thesis
    using s0 s4 n0 sn b' offs' rb3 abs n wbs by (simp add: Let_def)
qed

lemma inflate_offsets_decoded:
  assumes "inflate io name i sp eoff f rbk0 = Some (rbk', None)" "sz sp \<noteq> 0" "0 < sint eoff"
  shows "let b = bk rbk';
             start = sint (last' b) - uint (keylen (key b));
             n = sint (hd (beI32s (take 4 (drop (nat start) (buf rbk')))))
         in 0 \<le> start \<and> start + 4 \<le> int (length (buf rbk'))
            \<and> 0 \<le> n \<and> start + 4 + 4 * n \<le> int (length (buf rbk'))
            \<and> offsets b = beI32s (take (nat (4 * n)) (drop (nat (start + 4)) (buf rbk')))
            \<and> int (length (offsets b)) = n
            \<and> Pos (rbuf b) = sint (last' b) + 4 + 4 * n"
proof -
  from inflate_default_success [OF assms] obtain b3 where
    ro: "readOffsets b3 = Some (bk rbk', None)"
    and rb: "rbuf b3 = Reset (buf rbk') (keylen (key b3)) (Some f)"
    by blast
  have ok: "err (rbuf b3) = None" and d: "data (rbuf b3) = buf rbk'"
    and h: "hdr (rbuf b3) = keylen (key b3)"
    by (simp_all add: rb Reset_def)
  let ?start = "sint (last' b3) - uint (keylen (key b3))"
  let ?n = "sint (hd (beI32s (take 4 (drop (nat ?start) (buf rbk')))))"
  let ?tab = "beI32s (take (nat (4 * ?n)) (drop (nat (?start + 4)) (buf rbk')))"
  from readOffsets_success [OF ro ok]
  have s0: "0 \<le> ?start" and s4: "?start + 4 \<le> int (length (buf rbk'))"
    and n0: "0 \<le> ?n" and sn: "?start + 4 + 4 * ?n \<le> int (length (buf rbk'))"
    and b': "bk rbk' = b3\<lparr>offsets := ?tab, rbuf := (rbuf b3)\<lparr>cur := ?start + 4 + 4 * ?n\<rparr>\<rparr>"
    by (simp_all add: d h Let_def)
  have k: "key (bk rbk') = key b3" and l: "last' (bk rbk') = last' b3"
    and o: "offsets (bk rbk') = ?tab"
    and p: "Pos (rbuf (bk rbk')) = sint (last' b3) + 4 + 4 * ?n"
    by (simp_all add: b' Pos_def h)
  have "length (take (nat (4 * ?n)) (drop (nat (?start + 4)) (buf rbk'))) = nat (4 * ?n)"
    using s0 n0 sn by simp
  moreover have "nat (4 * ?n) = 4 * nat ?n"
    using n0 by (simp add: nat_mult_distrib)
  ultimately have "length ?tab = nat ?n"
    by (simp only: length_beI32s nonzero_mult_div_cancel_left)
  then have len: "int (length ?tab) = ?n"
    using n0 by simp
  show ?thesis
    unfolding Let_def k l o p using s0 s4 n0 sn len by simp
qed

text \<open>The example file, evaluated: a basket read from the file, with its offsets table.\<close>

lemma inflate_example_53:
  "inflate (exampleIO examplePayload) ''b'' 1 (exampleSpan 0 12 None) 1 () (exampleRBasket [])
     = Some (exampleInflated 1 examplePayload [5, 3], None)"
  by (simp add: inflate_def readOffsets_def Load_def exampleIO_def exampleSpan_def
      exampleRBasket_def exampleBasket_def exampleKey_def examplePayload_def exampleInflated_def
      ResizeU8_def ResizeI32_def Resize_def Reset_def SetPos_def ReadI32_def ReadArrayI32_def
      window_def Err_def be32_def Let_def)

lemma inflate_example_35:
  "inflate (exampleIO [0, 0, 0, 2, 0, 0, 0, 3, 0, 0, 0, 5]) ''b'' 1 (exampleSpan 0 12 None) 1 ()
       (exampleRBasket [])
     = Some (exampleInflated 1 [0, 0, 0, 2, 0, 0, 0, 3, 0, 0, 0, 5] [3, 5], None)"
  by (simp add: inflate_def readOffsets_def Load_def exampleIO_def exampleSpan_def
      exampleRBasket_def exampleBasket_def exampleKey_def examplePayload_def exampleInflated_def
      ResizeU8_def ResizeI32_def Resize_def Reset_def SetPos_def ReadI32_def ReadArrayI32_def
      window_def Err_def be32_def Let_def)

text \<open>The table of a basket read from the file, in terms of the payload of its key.\<close>

lemma beI32s_nth:
  "4 * i + 3 < length bs \<Longrightarrow> beI32s bs ! i = storedI32 bs (4 * i)"
proof (induction bs arbitrary: i rule: beI32s.induct)
  case (1 b0 b1 b2 b3 bs)
  show ?case
  proof (cases i)
    case 0
    then show ?thesis by (simp add: storedI32_def)
  next
    case (Suc j)
    with "1.prems" have "4 * j + 3 < length bs" by simp
    then have "beI32s bs ! j = storedI32 bs (4 * j)" by (rule "1.IH")
    moreover have "4 * Suc j = Suc (Suc (Suc (Suc (4 * j))))" by simp
    ultimately show ?thesis
      by (simp add: Suc storedI32_def add.commute)
  qed
qed simp_all

lemma storedI32_take_drop:
  assumes "j + 3 < m" and "d + m \<le> length bs"
  shows "storedI32 (take m (drop d bs)) j = storedI32 bs (d + j)"
  using assms by (simp add: storedI32_def add.assoc)

lemma hd_beI32s:
  assumes "s + 4 \<le> length bs"
  shows "hd (beI32s (take 4 (drop s bs))) = storedI32 bs s"
proof -
  let ?w = "take 4 (drop s bs)"
  have len: "length ?w = 4" using assms by simp
  then have "length (beI32s ?w) = 1" by (simp add: length_beI32s)
  then have "hd (beI32s ?w) = beI32s ?w ! 0"
    by (metis hd_conv_nth length_0_conv zero_neq_one)
  also have "\<dots> = storedI32 ?w (4 * 0)"
  proof (rule beI32s_nth)
    have "(3 :: nat) < 4" by simp
    then show "4 * 0 + 3 < length ?w" by (simp only: len mult_0_right add_0)
  qed
  also have "\<dots> = storedI32 bs (s + 4 * 0)"
    by (rule storedI32_take_drop) (use assms in simp_all)
  finally show ?thesis by simp
qed

lemma strictlyIncreasing_nth:
  "strictlyIncreasing xs \<longleftrightarrow> (\<forall>i. i + 1 < length xs \<longrightarrow> sint (xs ! i) < sint (xs ! (i + 1)))"
proof (induction xs rule: strictlyIncreasing.induct)
  case (1 x y ys)
  show ?case
  proof
    assume a: "strictlyIncreasing (x # y # ys)"
    then have xy: "sint x < sint y" and r: "strictlyIncreasing (y # ys)" by simp_all
    show "\<forall>i. i + 1 < length (x # y # ys) \<longrightarrow> sint ((x # y # ys) ! i) < sint ((x # y # ys) ! (i + 1))"
    proof (intro allI impI)
      fix i assume i: "i + 1 < length (x # y # ys)"
      show "sint ((x # y # ys) ! i) < sint ((x # y # ys) ! (i + 1))"
      proof (cases i)
        case 0
        then show ?thesis using xy by simp
      next
        case (Suc j)
        with i have "j + 1 < length (y # ys)" by simp
        with r "1.IH" have "sint ((y # ys) ! j) < sint ((y # ys) ! (j + 1))" by blast
        then show ?thesis by (simp add: Suc)
      qed
    qed
  next
    assume a: "\<forall>i. i + 1 < length (x # y # ys) \<longrightarrow> sint ((x # y # ys) ! i) < sint ((x # y # ys) ! (i + 1))"
    from a [rule_format, of 0] have xy: "sint x < sint y" by simp
    have "\<forall>j. j + 1 < length (y # ys) \<longrightarrow> sint ((y # ys) ! j) < sint ((y # ys) ! (j + 1))"
    proof (intro allI impI)
      fix j assume "j + 1 < length (y # ys)"
      then have "Suc j + 1 < length (x # y # ys)" by simp
      from a [rule_format, OF this] show "sint ((y # ys) ! j) < sint ((y # ys) ! (j + 1))" by simp
    qed
    with "1.IH" have "strictlyIncreasing (y # ys)" by blast
    with xy show "strictlyIncreasing (x # y # ys)" by simp
  qed
qed simp_all

lemma inflate_default_trace:
  assumes "inflate io name i sp eoff f rbk0 = Some (rbk', None)" "sz sp \<noteq> 0" "0 < sint eoff"
  shows "\<exists>bs0 bs1 b1.
           ResizeU8 (buf rbk0) (sint (sz sp)) = Some bs0
         \<and> ReadAt io f bs0 (pos sp) = (bs1, None)
         \<and> UnmarshalROOT io ((case bkt sp of None \<Rightarrow> bk rbk0 | Some b \<Rightarrow> b)\<lparr>rbuf := Reset bs1 0 (Some f)\<rparr>)
             = (b1, None)
         \<and> payload io ((key b1)\<lparr>kfile := Some f\<rparr>) = Inr (buf rbk')
         \<and> int (length (buf rbk')) = sint (objlen (key b1))
         \<and> readOffsets (b1\<lparr>key := (key b1)\<lparr>kfile := Some f\<rparr>,
                             rbuf := Reset (buf rbk') (keylen (key b1)) (Some f)\<rparr>)
             = Some (bk rbk', None)"
  using assms unfolding inflate_def Let_def Load_def
  by (cases "bkt sp") (auto split: option.splits prod.splits if_splits sum.splits)

lemma inflate_table_from_payload:
  assumes "inflate io name i sp eoff f rbk0 = Some (rbk', None)" "sz sp \<noteq> 0" "0 < sint eoff"
  shows "\<exists>bs0 bs1 b1.
           ResizeU8 (buf rbk0) (sint (sz sp)) = Some bs0
         \<and> ReadAt io f bs0 (pos sp) = (bs1, None)
         \<and> UnmarshalROOT io ((case bkt sp of None \<Rightarrow> bk rbk0 | Some b \<Rightarrow> b)\<lparr>rbuf := Reset bs1 0 (Some f)\<rparr>)
             = (b1, None)
         \<and> key (bk rbk') = (key b1)\<lparr>kfile := Some f\<rparr>
         \<and> last' (bk rbk') = last' b1
         \<and> payload io (key (bk rbk')) = Inr (buf rbk')
         \<and> int (length (buf rbk')) = sint (objlen (key (bk rbk')))
         \<and> data (rbuf (bk rbk')) = buf rbk'"
proof -
  from inflate_default_trace [OF assms] obtain bs0 bs1 b1 where
    r: "ResizeU8 (buf rbk0) (sint (sz sp)) = Some bs0"
    and a: "ReadAt io f bs0 (pos sp) = (bs1, None)"
    and u: "UnmarshalROOT io ((case bkt sp of None \<Rightarrow> bk rbk0 | Some b \<Rightarrow> b)\<lparr>rbuf := Reset bs1 0 (Some f)\<rparr>)
             = (b1, None)"
    and p: "payload io ((key b1)\<lparr>kfile := Some f\<rparr>) = Inr (buf rbk')"
    and l: "int (length (buf rbk')) = sint (objlen (key b1))"
    and ro: "readOffsets (b1\<lparr>key := (key b1)\<lparr>kfile := Some f\<rparr>,
                             rbuf := Reset (buf rbk') (keylen (key b1)) (Some f)\<rparr>)
             = Some (bk rbk', None)"
    by blast
  let ?b3 = "b1\<lparr>key := (key b1)\<lparr>kfile := Some f\<rparr>,
                 rbuf := Reset (buf rbk') (keylen (key b1)) (Some f)\<rparr>"
  have ok: "err (rbuf ?b3) = None" by (simp add: Reset_def)
  from readOffsets_success [OF ro ok, unfolded Let_def]
  obtain offs c where b': "bk rbk' = ?b3\<lparr>offsets := offs, rbuf := (rbuf ?b3)\<lparr>cur := c\<rparr>\<rparr>"
    by blast
  have k: "key (bk rbk') = (key b1)\<lparr>kfile := Some f\<rparr>" and la: "last' (bk rbk') = last' b1"
    and d: "data (rbuf (bk rbk')) = buf rbk'"
    by (simp_all add: b' Reset_def)
  show ?thesis
    using r a u p l k la d by auto
qed

lemma inflate_table_elements:
  assumes "inflate io name i sp eoff f rbk0 = Some (rbk', None)" "sz sp \<noteq> 0" "0 < sint eoff"
  shows "let b = bk rbk';
             s = nat (sint (last' b) - uint (keylen (key b)));
             n = sint (storedI32 (buf rbk') s)
         in uint (keylen (key b)) \<le> sint (last' b)
            \<and> 0 \<le> n \<and> int s + 4 + 4 * n \<le> int (length (buf rbk'))
            \<and> int (length (offsets b)) = n
            \<and> (\<forall>i < length (offsets b). offsets b ! i = storedI32 (buf rbk') (s + 4 + 4 * i))"
proof -
  let ?b = "bk rbk'"
  let ?pl = "buf rbk'"
  let ?start = "sint (last' ?b) - uint (keylen (key ?b))"
  let ?s = "nat ?start"
  let ?m = "sint (hd (beI32s (take 4 (drop ?s ?pl))))"
  from inflate_offsets_decoded [OF assms, unfolded Let_def]
  have s0: "0 \<le> ?start" and s4: "?start + 4 \<le> int (length ?pl)"
    and n0: "0 \<le> ?m" and sn: "?start + 4 + 4 * ?m \<le> int (length ?pl)"
    and o: "offsets ?b = beI32s (take (nat (4 * ?m)) (drop (nat (?start + 4)) ?pl))"
    and len: "int (length (offsets ?b)) = ?m"
    by blast+
  have s4n: "?s + 4 \<le> length ?pl" using s0 s4 by linarith
  have cnt: "hd (beI32s (take 4 (drop ?s ?pl))) = storedI32 ?pl ?s"
    using s4n by (rule hd_beI32s)
  let ?n = "sint (storedI32 ?pl ?s)"
  have nn: "?m = ?n" by (simp add: cnt)
  have d4: "nat (?start + 4) = ?s + 4" using s0 by simp
  have m4: "nat (4 * ?n) = 4 * nat ?n" using n0 nn by (simp add: nat_mult_distrib)
  have fit: "(?s + 4) + 4 * nat ?n \<le> length ?pl" using s0 n0 sn nn by linarith
  have o': "offsets ?b = beI32s (take (4 * nat ?n) (drop (?s + 4) ?pl))"
    using o by (simp add: nn d4 m4)
  have len': "length (offsets ?b) = nat ?n" using len nn by simp
  have el: "offsets ?b ! i = storedI32 ?pl (?s + 4 + 4 * i)" if "i < length (offsets ?b)" for i
  proof -
    from that len' have i: "4 * i + 3 < 4 * nat ?n" by simp
    have lt: "length (take (4 * nat ?n) (drop (?s + 4) ?pl)) = 4 * nat ?n"
      using fit by simp
    have "offsets ?b ! i = storedI32 (take (4 * nat ?n) (drop (?s + 4) ?pl)) (4 * i)"
      unfolding o' by (rule beI32s_nth) (simp only: lt i)
    also have "\<dots> = storedI32 ?pl (?s + 4 + 4 * i)"
      using i fit by (rule storedI32_take_drop)
    finally show ?thesis .
  qed
  show ?thesis
    unfolding Let_def using s0 n0 sn len nn el by auto
qed

text \<open>
  C2. If the bytes that a basket's key inflates to have a size that disagrees with the
  declared uncompressed size \<^verbatim>\<open>ObjLen()\<close>, \<^verbatim>\<open>inflate\<close> fails with \<open>CorruptBasket\<close>: the
  error of \<^verbatim>\<open>Key.Load\<close> is returned at once and as it is, the buffer is the resized one
  that \<^verbatim>\<open>Load\<close> was given, and nothing is decoded after it. This holds for a recovered
  basket (span of size zero) and, once the read from the file and the decoding of the
  basket header have succeeded, for a basket read from the file.
\<close>

theorem inflate_corrupt_basket:
  "(sz sp = 0
      \<and> b1 = (case bkt sp of None \<Rightarrow> bk rbk0 | Some b \<Rightarrow> b)
      \<and> ResizeU8 (buf rbk0) (sint (objlen (key b1))) = Some bs
      \<and> payload io ((key b1)\<lparr>kfile := Some f\<rparr>) = Inr pl
      \<and> int (length pl) \<noteq> sint (objlen (key b1)) \<longrightarrow>
    inflate io name i sp eoff f rbk0
      = Some (rbk0\<lparr>id' := i, span' := sp,
                   bk := b1\<lparr>key := (key b1)\<lparr>kfile := Some f\<rparr>\<rparr>, buf := bs\<rparr>,
              Some CorruptBasket))
   \<and> (sz sp \<noteq> 0
      \<and> b0 = (case bkt sp of None \<Rightarrow> bk rbk0 | Some b \<Rightarrow> b)
      \<and> ResizeU8 (buf rbk0) (sint (sz sp)) = Some bs0
      \<and> ReadAt io f bs0 (pos sp) = (bs1, None)
      \<and> UnmarshalROOT io (b0\<lparr>rbuf := Reset bs1 0 (Some f)\<rparr>) = (b2, None)
      \<and> ResizeU8 bs1 (sint (objlen (key b2))) = Some bs2
      \<and> payload io ((key b2)\<lparr>kfile := Some f\<rparr>) = Inr pl
      \<and> int (length pl) \<noteq> sint (objlen (key b2)) \<longrightarrow>
    inflate io name i sp eoff f rbk0
      = Some (rbk0\<lparr>id' := i, span' := sp,
                   bk := b2\<lparr>key := (key b2)\<lparr>kfile := Some f\<rparr>\<rparr>, buf := bs2\<rparr>,
              Some CorruptBasket))"
proof (intro conjI impI; elim conjE)
  assume z: "sz sp = 0"
    and b1: "b1 = (case bkt sp of None \<Rightarrow> bk rbk0 | Some b \<Rightarrow> b)"
    and rs: "ResizeU8 (buf rbk0) (sint (objlen (key b1))) = Some bs"
    and p: "payload io ((key b1)\<lparr>kfile := Some f\<rparr>) = Inr pl"
    and l: "int (length pl) \<noteq> sint (objlen (key b1))"
  have ld: "Load io ((key b1)\<lparr>kfile := Some f\<rparr>) bs = (bs, Some CorruptBasket)"
    using l by (simp add: Load_def p)
  show "inflate io name i sp eoff f rbk0
      = Some (rbk0\<lparr>id' := i, span' := sp,
                   bk := b1\<lparr>key := (key b1)\<lparr>kfile := Some f\<rparr>\<rparr>, buf := bs\<rparr>,
              Some CorruptBasket)"
  proof (cases "bkt sp")
    case None
    then have "b1 = bk rbk0" by (simp add: b1)
    with None z rs ld show ?thesis by (simp add: inflate_def Let_def)
  next
    case (Some b)
    then have "b1 = b" by (simp add: b1)
    with Some z rs ld show ?thesis by (simp add: inflate_def Let_def)
  qed
next
  assume z: "sz sp \<noteq> 0"
    and b0: "b0 = (case bkt sp of None \<Rightarrow> bk rbk0 | Some b \<Rightarrow> b)"
    and rs0: "ResizeU8 (buf rbk0) (sint (sz sp)) = Some bs0"
    and ra: "ReadAt io f bs0 (pos sp) = (bs1, None)"
    and um: "UnmarshalROOT io (b0\<lparr>rbuf := Reset bs1 0 (Some f)\<rparr>) = (b2, None)"
    and rs: "ResizeU8 bs1 (sint (objlen (key b2))) = Some bs2"
    and p: "payload io ((key b2)\<lparr>kfile := Some f\<rparr>) = Inr pl"
    and l: "int (length pl) \<noteq> sint (objlen (key b2))"
  have ld: "Load io ((key b2)\<lparr>kfile := Some f\<rparr>) bs2 = (bs2, Some CorruptBasket)"
    using l by (simp add: Load_def p)
  show "inflate io name i sp eoff f rbk0
      = Some (rbk0\<lparr>id' := i, span' := sp,
                   bk := b2\<lparr>key := (key b2)\<lparr>kfile := Some f\<rparr>\<rparr>, buf := bs2\<rparr>,
              Some CorruptBasket)"
  proof (cases "bkt sp")
    case None
    then have "b0 = bk rbk0" by (simp add: b0)
    with None z rs0 ra um rs ld show ?thesis by (simp add: inflate_def Let_def)
  next
    case (Some b)
    then have "b0 = b" by (simp add: b0)
    with Some z rs0 ra um rs ld show ?thesis by (simp add: inflate_def Let_def)
  qed
qed

theorem inflate_corrupt_basket_witness:
  "sz (exampleSpan 0 0 None) = 0
   \<and> int (length (butlast examplePayload)) \<noteq> sint (objlen exampleKey)
   \<and> map_option snd (inflate (exampleIO (butlast examplePayload)) ''b'' 1 (exampleSpan 0 0 None) 1 ()
         (exampleRBasket [])) = Some (Some CorruptBasket)
   \<and> sz (exampleSpan 0 12 None) \<noteq> 0
   \<and> map_option snd (inflate (exampleIO (butlast examplePayload)) ''b'' 1 (exampleSpan 0 12 None) 1 ()
         (exampleRBasket [])) = Some (Some CorruptBasket)"
  using
    inflate_corrupt_basket [where sp = "exampleSpan 0 0 None" and ?rbk0.0 = "exampleRBasket []"
      and ?b1.0 = "exampleBasket []" and bs = examplePayload
      and io = "exampleIO (butlast examplePayload)" and f = "()" and pl = "butlast examplePayload"
      and i = 1 and name = "''b''" and eoff = 1]
    inflate_corrupt_basket [where sp = "exampleSpan 0 12 None" and ?rbk0.0 = "exampleRBasket []"
      and ?b0.0 = "exampleBasket []" and ?bs0.0 = examplePayload and ?bs1.0 = examplePayload
      and ?b2.0 = "(exampleBasket [])\<lparr>rbuf := Reset examplePayload 0 (Some ()),
                     key := exampleKey, nevsize := 0, last' := 3\<rparr>"
      and ?bs2.0 = examplePayload
      and io = "exampleIO (butlast examplePayload)" and f = "()" and pl = "butlast examplePayload"
      and i = 1 and name = "''b''" and eoff = 1]
  by (simp add: exampleIO_def exampleSpan_def exampleRBasket_def exampleBasket_def
      exampleKey_def examplePayload_def ResizeU8_def Resize_def Reset_def)

lemma replicate_three: "replicate 3 x = [x, x, x]"
  by (simp add: numeral_3_eq_3)

text \<open>
  C3, as stated: when \<^verbatim>\<open>inflate\<close> returns an error, the basket id, the entry span, the
  buffer and the offsets table seen through the \<^verbatim>\<open>rbasket\<close> are as before the call.
  The code assigns \<^verbatim>\<open>rbk.id\<close> and \<^verbatim>\<open>rbk.span\<close> before its first step that can fail, and
  resizes the offsets table before it reads it: after a failed read from the file the id
  is that of the requested basket, and after a table cut short the offsets table has
  been resized to the count.
\<close>

theorem inflate_not_atomic:
  "map_option snd (inflate (exampleIO examplePayload) ''b'' 7 (exampleSpan 1 12 None) 1 ()
       (exampleRBasket [])) = Some (Some (CouldNotReadBasket IOError))
   \<and> map_option (\<lambda>x. id' (fst x)) (inflate (exampleIO examplePayload) ''b'' 7
       (exampleSpan 1 12 None) 1 () (exampleRBasket [])) = Some 7
   \<and> id' (exampleRBasket []) = 0
   \<and> map_option snd (inflate (exampleIO [0, 0, 0, 3, 0, 0, 0, 5, 0, 0, 0, 3]) ''b'' 0
       (exampleSpan 0 12 None) 1 () (exampleRBasket [])) = Some (Some IOError)
   \<and> map_option (\<lambda>x. offsets (bk (fst x))) (inflate (exampleIO [0, 0, 0, 3, 0, 0, 0, 5, 0, 0, 0, 3])
       ''b'' 0 (exampleSpan 0 12 None) 1 () (exampleRBasket [])) = Some [0, 0, 0]
   \<and> offsets (bk (exampleRBasket [])) = []"
  by (simp add: inflate_def readOffsets_def Load_def exampleIO_def exampleSpan_def
      exampleRBasket_def exampleBasket_def exampleKey_def examplePayload_def
      ResizeU8_def ResizeI32_def Resize_def Reset_def SetPos_def ReadI32_def ReadArrayI32_def
      window_def Err_def be32_def Let_def replicate_three)

text \<open>
  C3, amended. \<^verbatim>\<open>inflate\<close> works in place and does not roll back: whenever it returns
  an error, the error is what the caller gets, and the basket id and the entry span seen
  through the \<^verbatim>\<open>rbasket\<close> are those of the requested basket, whatever they were before
  the call.
\<close>

theorem inflate_failure_state:
  assumes "inflate io name i sp eoff f rbk0 = Some (rbk', Some e)"
  shows "id' rbk' = i \<and> span' rbk' = sp"
  using assms by (rule inflate_id_span)

theorem inflate_failure_state_witness:
  "inflate (exampleIO examplePayload) ''b'' 7 (exampleSpan 1 12 None) 1 () (exampleRBasket [])
     = Some ((exampleRBasket [])\<lparr>id' := 7, span' := exampleSpan 1 12 None\<rparr>,
             Some (CouldNotReadBasket IOError))
   \<and> id' ((exampleRBasket [])\<lparr>id' := 7, span' := exampleSpan 1 12 None\<rparr>) = 7
   \<and> span' ((exampleRBasket [])\<lparr>id' := 7, span' := exampleSpan 1 12 None\<rparr>) = exampleSpan 1 12 None"
proof -
  have h: "inflate (exampleIO examplePayload) ''b'' 7 (exampleSpan 1 12 None) 1 () (exampleRBasket [])
     = Some ((exampleRBasket [])\<lparr>id' := 7, span' := exampleSpan 1 12 None\<rparr>,
             Some (CouldNotReadBasket IOError))"
    by (simp add: inflate_def exampleIO_def exampleSpan_def exampleRBasket_def exampleBasket_def
        examplePayload_def ResizeU8_def Resize_def Let_def)
  show ?thesis
    using h inflate_failure_state [OF h] by simp
qed

text \<open>
  C4, as stated: whenever a basket of a branch with variable-length leaves
  (\<^verbatim>\<open>eoff > 0\<close>) is inflated, the offsets table is read from the buffer at \<^verbatim>\<open>last\<close>. For a
  recovered basket (a span of size zero) the block that reads the table is not run: the
  call succeeds, the table is the one the recovered basket came with, and the cursor is
  at the start of the buffer, although the buffer holds the count 2 and the values 5, 3.
\<close>

theorem inflate_recovered_no_table_read:
  "0 < sint (1 :: 64 word)
   \<and> map_option snd (inflate (exampleIO examplePayload) ''b'' 1
        (exampleSpan 0 0 (Some (exampleBasket [9]))) 1 () (exampleRBasket [])) = Some None
   \<and> map_option (\<lambda>x. offsets (bk (fst x))) (inflate (exampleIO examplePayload) ''b'' 1
        (exampleSpan 0 0 (Some (exampleBasket [9]))) 1 () (exampleRBasket [])) = Some [9]
   \<and> map_option (\<lambda>x. Pos (rbuf (bk (fst x)))) (inflate (exampleIO examplePayload) ''b'' 1
        (exampleSpan 0 0 (Some (exampleBasket [9]))) 1 () (exampleRBasket [])) = Some 0
   \<and> beI32s examplePayload = [2, 5, 3]"
  by (simp add: inflate_def Load_def exampleIO_def exampleSpan_def
      exampleRBasket_def exampleBasket_def exampleKey_def examplePayload_def
      ResizeU8_def Resize_def Reset_def Pos_def be32_def Let_def)

text \<open>
  C4, amended. When a basket that is read from the file (a span of non-zero size) of a
  branch with variable-length leaves is inflated and the call succeeds, the tail of the
  decompressed buffer has been read as the offsets table. The buffer is what the payload
  of the basket's key inflates to, of the declared length \<^verbatim>\<open>ObjLen()\<close>; the key and the
  \<^verbatim>\<open>last\<close> pointer are those decoded from the basket header read from the file at the
  span's location. With the cursor at \<^verbatim>\<open>last\<close> (index \<open>last - keylen\<close> of the buffer),
  a 4-byte count \<open>n\<close> was read, then exactly \<open>n\<close> 4-byte offsets, which are the
  basket's offsets table, and the cursor is left behind them.
\<close>

theorem inflate_reads_offsets:
  assumes "inflate io name i sp eoff f rbk0 = Some (rbk', None)"
      and "sz sp \<noteq> 0" and "0 < sint eoff"
  shows "\<exists>bs0 bs1 b1.
           ResizeU8 (buf rbk0) (sint (sz sp)) = Some bs0
         \<and> ReadAt io f bs0 (pos sp) = (bs1, None)
         \<and> UnmarshalROOT io ((case bkt sp of None \<Rightarrow> bk rbk0 | Some b \<Rightarrow> b)\<lparr>rbuf := Reset bs1 0 (Some f)\<rparr>)
             = (b1, None)
         \<and> key (bk rbk') = (key b1)\<lparr>kfile := Some f\<rparr>
         \<and> last' (bk rbk') = last' b1
         \<and> payload io (key (bk rbk')) = Inr (buf rbk')
         \<and> int (length (buf rbk')) = sint (objlen (key (bk rbk')))
         \<and> data (rbuf (bk rbk')) = buf rbk'
         \<and> (let b = bk rbk';
                  start = sint (last' b) - uint (keylen (key b));
                  n = sint (hd (beI32s (take 4 (drop (nat start) (buf rbk')))))
              in 0 \<le> start \<and> start + 4 \<le> int (length (buf rbk'))
                 \<and> 0 \<le> n \<and> start + 4 + 4 * n \<le> int (length (buf rbk'))
                 \<and> offsets b = beI32s (take (nat (4 * n)) (drop (nat (start + 4)) (buf rbk')))
                 \<and> int (length (offsets b)) = n
                 \<and> Pos (rbuf b) = sint (last' b) + 4 + 4 * n)"
  using inflate_table_from_payload [OF assms] inflate_offsets_decoded [OF assms]
  by blast

theorem inflate_reads_offsets_witness:
  "inflate (exampleIO examplePayload) ''b'' 1 (exampleSpan 0 12 None) 1 () (exampleRBasket [])
     = Some (exampleInflated 1 examplePayload [5, 3], None)
   \<and> sz (exampleSpan 0 12 None) \<noteq> 0 \<and> 0 < sint (1 :: 64 word)
   \<and> payload (exampleIO examplePayload) (key (bk (exampleInflated 1 examplePayload [5, 3])))
       = Inr (buf (exampleInflated 1 examplePayload [5, 3]))
   \<and> buf (exampleInflated 1 examplePayload [5, 3]) = examplePayload
   \<and> sint (hd (beI32s (take 4 examplePayload))) = 2
   \<and> offsets (bk (exampleInflated 1 examplePayload [5, 3])) = beI32s (take 8 (drop 4 examplePayload))
   \<and> Pos (rbuf (bk (exampleInflated 1 examplePayload [5, 3]))) = 15"
proof -
  have s: "sz (exampleSpan 0 12 None) \<noteq> 0" and e: "0 < sint (1 :: 64 word)"
    by (simp_all add: exampleSpan_def)
  show ?thesis
    using s e inflate_example_53 inflate_reads_offsets [OF inflate_example_53 s e]
    by (simp add: exampleInflated_def examplePayload_def exampleIO_def Pos_def be32_def Let_def)
qed

text \<open>
  C5, as stated: the offsets table that \<^verbatim>\<open>inflate\<close> produces has length entries + 1 and
  is strictly increasing. \<^verbatim>\<open>inflate\<close> checks neither: from a basket of one entry whose
  stored table is the count 2 and the values 5, 3, it produces the table 5, 3.
\<close>

theorem inflate_offsets_not_increasing:
  "inflate (exampleIO examplePayload) ''b'' 1 (exampleSpan 0 12 None) 1 () (exampleRBasket [])
     = Some (exampleInflated 1 examplePayload [5, 3], None)
   \<and> offsets (bk (exampleInflated 1 examplePayload [5, 3])) = [5, 3]
   \<and> \<not> offsetsTableOK 1 (offsets (bk (exampleInflated 1 examplePayload [5, 3])))"
  by (simp add: inflate_example_53) (simp add: exampleInflated_def offsetsTableOK_def)

text \<open>
  C5, amended. The offsets table that a successful \<^verbatim>\<open>inflate\<close> produces for a basket read
  from the file is the stored table, unchecked. The payload of the basket's key (the key
  and the \<^verbatim>\<open>last\<close> pointer being those decoded from the basket header read from the
  file) inflates to bytes that store a count at index \<open>last - keylen\<close> and the values
  behind it: the length of the table is that count and its element \<open>i\<close> is the
  \<open>i\<close>-th stored value. So the table has length entries + 1 and is strictly
  increasing exactly when the stored count is entries + 1 and each stored value is below
  the next one.
\<close>

theorem inflate_offsets_as_stored:
  assumes "inflate io name i sp eoff f rbk0 = Some (rbk', None)"
      and "sz sp \<noteq> 0" and "0 < sint eoff"
  shows "\<exists>bs0 bs1 b1 pl.
           ResizeU8 (buf rbk0) (sint (sz sp)) = Some bs0
         \<and> ReadAt io f bs0 (pos sp) = (bs1, None)
         \<and> UnmarshalROOT io ((case bkt sp of None \<Rightarrow> bk rbk0 | Some b \<Rightarrow> b)\<lparr>rbuf := Reset bs1 0 (Some f)\<rparr>)
             = (b1, None)
         \<and> key (bk rbk') = (key b1)\<lparr>kfile := Some f\<rparr>
         \<and> last' (bk rbk') = last' b1
         \<and> payload io (key (bk rbk')) = Inr pl
         \<and> int (length pl) = sint (objlen (key (bk rbk')))
         \<and> (let b = bk rbk';
                  s = nat (sint (last' b) - uint (keylen (key b)));
                  n = sint (storedI32 pl s)
              in uint (keylen (key b)) \<le> sint (last' b)
                 \<and> 0 \<le> n \<and> int s + 4 + 4 * n \<le> int (length pl)
                 \<and> int (length (offsets b)) = n
                 \<and> (\<forall>i < length (offsets b). offsets b ! i = storedI32 pl (s + 4 + 4 * i))
                 \<and> (offsetsTableOK entries (offsets b)
                      \<longleftrightarrow> n = int entries + 1
                          \<and> (\<forall>i. int i + 1 < n \<longrightarrow>
                                sint (storedI32 pl (s + 4 + 4 * i))
                                  < sint (storedI32 pl (s + 4 + 4 * (i + 1))))))"
proof -
  let ?b = "bk rbk'"
  let ?pl = "buf rbk'"
  let ?s = "nat (sint (last' ?b) - uint (keylen (key ?b)))"
  let ?n = "sint (storedI32 ?pl ?s)"
  from inflate_table_elements [OF assms, unfolded Let_def]
  have k: "uint (keylen (key ?b)) \<le> sint (last' ?b)" and n0: "0 \<le> ?n"
    and fit: "int ?s + 4 + 4 * ?n \<le> int (length ?pl)"
    and len: "int (length (offsets ?b)) = ?n"
    and el: "\<forall>i < length (offsets ?b). offsets ?b ! i = storedI32 ?pl (?s + 4 + 4 * i)"
    by blast+
  have inc: "strictlyIncreasing (offsets ?b)
       \<longleftrightarrow> (\<forall>i. int i + 1 < ?n \<longrightarrow>
              sint (storedI32 ?pl (?s + 4 + 4 * i)) < sint (storedI32 ?pl (?s + 4 + 4 * (i + 1))))"
  proof -
    have r: "int i + 1 < ?n \<longleftrightarrow> i + 1 < length (offsets ?b)" for i
      using len by linarith
    have "sint (offsets ?b ! i) < sint (offsets ?b ! (i + 1))
        \<longleftrightarrow> sint (storedI32 ?pl (?s + 4 + 4 * i)) < sint (storedI32 ?pl (?s + 4 + 4 * (i + 1)))"
      if "i + 1 < length (offsets ?b)" for i
    proof -
      from that have "i < length (offsets ?b)" by simp
      with el have a: "offsets ?b ! i = storedI32 ?pl (?s + 4 + 4 * i)" by blast
      from el that have b: "offsets ?b ! (i + 1) = storedI32 ?pl (?s + 4 + 4 * (i + 1))" by blast
      show ?thesis by (simp only: a b)
    qed
    then show ?thesis
      unfolding strictlyIncreasing_nth r by blast
  qed
  have cnt: "length (offsets ?b) = entries + 1 \<longleftrightarrow> ?n = int entries + 1"
    using len by linarith
  have ok: "offsetsTableOK entries (offsets ?b)
       \<longleftrightarrow> ?n = int entries + 1
           \<and> (\<forall>i. int i + 1 < ?n \<longrightarrow>
                sint (storedI32 ?pl (?s + 4 + 4 * i)) < sint (storedI32 ?pl (?s + 4 + 4 * (i + 1))))"
    unfolding offsetsTableOK_def inc cnt ..
  have body: "let b = bk rbk';
                  s = nat (sint (last' b) - uint (keylen (key b)));
                  n = sint (storedI32 ?pl s)
              in uint (keylen (key b)) \<le> sint (last' b)
                 \<and> 0 \<le> n \<and> int s + 4 + 4 * n \<le> int (length ?pl)
                 \<and> int (length (offsets b)) = n
                 \<and> (\<forall>i < length (offsets b). offsets b ! i = storedI32 ?pl (s + 4 + 4 * i))
                 \<and> (offsetsTableOK entries (offsets b)
                      \<longleftrightarrow> n = int entries + 1
                          \<and> (\<forall>i. int i + 1 < n \<longrightarrow>
                                sint (storedI32 ?pl (s + 4 + 4 * i))
                                  < sint (storedI32 ?pl (s + 4 + 4 * (i + 1)))))"
    unfolding Let_def using k n0 fit len el ok by blast
  from inflate_table_from_payload [OF assms] body show ?thesis by blast
qed

theorem inflate_offsets_as_stored_witness:
  "inflate (exampleIO [0, 0, 0, 2, 0, 0, 0, 3, 0, 0, 0, 5]) ''b'' 1 (exampleSpan 0 12 None) 1 ()
       (exampleRBasket [])
     = Some (exampleInflated 1 [0, 0, 0, 2, 0, 0, 0, 3, 0, 0, 0, 5] [3, 5], None)
   \<and> sz (exampleSpan 0 12 None) \<noteq> 0 \<and> 0 < sint (1 :: 64 word)
   \<and> payload (exampleIO [0, 0, 0, 2, 0, 0, 0, 3, 0, 0, 0, 5])
         (key (bk (exampleInflated 1 [0, 0, 0, 2, 0, 0, 0, 3, 0, 0, 0, 5] [3, 5])))
       = Inr [0, 0, 0, 2, 0, 0, 0, 3, 0, 0, 0, 5]
   \<and> sint (storedI32 [0, 0, 0, 2, 0, 0, 0, 3, 0, 0, 0, 5] 0) = 2
   \<and> storedI32 [0, 0, 0, 2, 0, 0, 0, 3, 0, 0, 0, 5] 4 = 3
   \<and> storedI32 [0, 0, 0, 2, 0, 0, 0, 3, 0, 0, 0, 5] 8 = 5
   \<and> offsets (bk (exampleInflated 1 [0, 0, 0, 2, 0, 0, 0, 3, 0, 0, 0, 5] [3, 5])) = [3, 5]
   \<and> offsetsTableOK 1 (offsets (bk (exampleInflated 1 [0, 0, 0, 2, 0, 0, 0, 3, 0, 0, 0, 5] [3, 5])))"
proof -
  have s: "sz (exampleSpan 0 12 None) \<noteq> 0" and e: "0 < sint (1 :: 64 word)"
    by (simp_all add: exampleSpan_def)
  show ?thesis
    using s e inflate_example_35 inflate_offsets_as_stored [OF inflate_example_35 s e, of 1]
    by (simp add: exampleInflated_def exampleIO_def offsetsTableOK_def storedI32_def be32_def)
qed

subsection \<open>groot/riofs: cycles and the round trip through a file\<close>

lemma maxCycle_append:
  "maxCycle n (ks @ [k]) =
     (if key_name k = n then max (key_cycle k) (maxCycle n ks) else maxCycle n ks)"
  by (induction ks) auto

lemma maxCycle_ge: "k \<in> set ks \<Longrightarrow> key_name k = n \<Longrightarrow> key_cycle k \<le> maxCycle n ks"
  by (induction ks) auto

lemma maxCycle_nonneg: "0 \<le> maxCycle n ks"
  by (induction ks) auto

lemma maxCycle_absent: "\<forall>k \<in> set ks. key_name k \<noteq> n \<Longrightarrow> maxCycle n ks = 0"
  by (induction ks) auto

lemma find_app:
  "find P (xs @ ys) = (case find P xs of None \<Rightarrow> find P ys | Some x \<Rightarrow> Some x)"
  by (induction xs) auto

lemma lookup_above_max:
  assumes "maxCycle n ks < c"
  shows "find (\<lambda>k. key_name k = n \<and> key_cycle k = c) ks = None"
proof -
  have "\<not> (key_name k = n \<and> key_cycle k = c)" if "k \<in> set ks" for k
    using maxCycle_ge [OF that] assms by auto
  then show ?thesis by (simp add: find_None_iff)
qed

lemma Put_result:
  assumes "\<not> file_closed f" "file_mode f = ForWrite"
  shows "Put reg f n v =
     Inr (f\<lparr>file_keys := file_keys f @
               [\<lparr>key_name = n, key_class = classOf reg v,
                 key_cycle = 1 + maxCycle n (file_keys f),
                 key_seek = length (file_bytes f),
                 key_hdrlen = length (keyHeader reg n (classOf reg v) (1 + maxCycle n (file_keys f))),
                 key_len = length (compress reg (Marshal reg v)),
                 key_objlen = length (Marshal reg v)\<rparr>],
             file_bytes := file_bytes f
               @ keyHeader reg n (classOf reg v) (1 + maxCycle n (file_keys f))
               @ compress reg (Marshal reg v)\<rparr>)"
  using assms by (simp add: Put_def Let_def)

lemma Put_open:
  assumes "Put reg f n v = Inr f'"
  shows "\<not> file_closed f \<and> file_mode f = ForWrite \<and> \<not> file_closed f' \<and> file_mode f' = ForWrite
         \<and> file_path f' = file_path f"
  using assms by (auto simp: Put_def Let_def split: if_splits)

lemma Put_holds_new:
  assumes "Put reg f n v = Inr f'"
  shows "holds reg f' n (1 + maxCycle n (file_keys f)) v"
proof -
  from Put_open [OF assms] have o: "\<not> file_closed f" "file_mode f = ForWrite" by simp_all
  have none: "find (\<lambda>k. key_name k = n \<and> key_cycle k = 1 + maxCycle n (file_keys f)) (file_keys f) = None"
    by (rule lookup_above_max) simp
  show ?thesis
    using assms unfolding Put_result [OF o]
    by (auto simp: holds_def lookupKey_def keyPayload_def find_app none)
qed

lemma Put_holds_old:
  assumes "Put reg f n v = Inr f'" and "holds reg f m c u"
  shows "holds reg f' m c u"
proof -
  from Put_open [OF assms(1)] have o: "\<not> file_closed f" "file_mode f = ForWrite" by simp_all
  from assms(2) obtain k where k: "find (\<lambda>k. key_name k = m \<and> key_cycle k = c) (file_keys f) = Some k"
    and kc: "key_class k = classOf reg u" and ko: "key_objlen k = length (Marshal reg u)"
    and kb: "key_seek k + key_hdrlen k + key_len k \<le> length (file_bytes f)"
    and kp: "take (key_len k) (drop (key_seek k + key_hdrlen k) (file_bytes f)) = compress reg (Marshal reg u)"
    by (auto simp: holds_def lookupKey_def keyPayload_def split: option.splits)
  show ?thesis
    using assms(1) k kc ko kb kp unfolding Put_result [OF o]
    by (auto simp: holds_def lookupKey_def keyPayload_def find_app)
qed

lemma Put_maxCycle:
  assumes "Put reg f n v = Inr f'"
  shows "maxCycle m (file_keys f') = (if m = n then 1 + maxCycle n (file_keys f) else maxCycle m (file_keys f))"
proof -
  from Put_open [OF assms] have o: "\<not> file_closed f" "file_mode f = ForWrite" by simp_all
  show ?thesis
    using assms unfolding Put_result [OF o]
    by (auto simp: maxCycle_append)
qed

lemma Put_names:
  assumes "Put reg f n v = Inr f'"
  shows "map key_name (file_keys f') = map key_name (file_keys f) @ [n]"
    and "map key_cycle (filter (\<lambda>k. key_name k = n) (file_keys f'))
           = map key_cycle (filter (\<lambda>k. key_name k = n) (file_keys f)) @ [1 + maxCycle n (file_keys f)]"
proof -
  from Put_open [OF assms] have o: "\<not> file_closed f" "file_mode f = ForWrite" by simp_all
  show "map key_name (file_keys f') = map key_name (file_keys f) @ [n]"
    using assms unfolding Put_result [OF o] by auto
  show "map key_cycle (filter (\<lambda>k. key_name k = n) (file_keys f'))
           = map key_cycle (filter (\<lambda>k. key_name k = n) (file_keys f)) @ [1 + maxCycle n (file_keys f)]"
    using assms unfolding Put_result [OF o] by auto
qed

lemma Get_holds:
  assumes "holds reg f n c v" "registered reg v" "\<not> file_closed f"
  shows "Get reg f n (Some c) = Inr v"
  using assms
  by (auto simp: Get_def holds_def registered_def Let_def split: option.splits)

lemma Get_latest: "Get reg f n None = Get reg f n (Some (maxCycle n (file_keys f)))"
  by (simp add: Get_def)

lemma holds_same_content:
  assumes "file_keys g = file_keys f" "file_bytes g = file_bytes f"
  shows "holds reg g n c v = holds reg f n c v"
  using assms by (simp add: holds_def lookupKey_def keyPayload_def split: option.splits)

lemma putAll_open:
  assumes "\<not> file_closed f" "file_mode f = ForWrite"
  shows "\<exists>f'. putAll reg f kvs = Inr f' \<and> \<not> file_closed f' \<and> file_mode f' = ForWrite
              \<and> file_path f' = file_path f
              \<and> map key_name (file_keys f') = map key_name (file_keys f) @ map fst kvs"
  using assms
proof (induction kvs arbitrary: f)
  case Nil
  then show ?case by simp
next
  case (Cons a kvs)
  obtain n v where a: "a = (n, v)" by (cases a)
  from Put_result [OF Cons.prems, of reg n v] obtain f1 where p: "Put reg f n v = Inr f1"
    by blast
  from Put_open [OF p] have o: "\<not> file_closed f1" "file_mode f1 = ForWrite"
    and pa: "file_path f1 = file_path f" by simp_all
  from Cons.IH [OF o] obtain f' where r: "putAll reg f1 kvs = Inr f'"
    and c: "\<not> file_closed f'" "file_mode f' = ForWrite" "file_path f' = file_path f1"
    and ns: "map key_name (file_keys f') = map key_name (file_keys f1) @ map fst kvs"
    by blast
  show ?case
    using p r c ns pa Put_names(1) [OF p] by (simp add: a)
qed

lemma putAll_holds_old:
  assumes "putAll reg f kvs = Inr f'" and "holds reg f m c u"
  shows "holds reg f' m c u"
  using assms
proof (induction kvs arbitrary: f)
  case Nil
  then show ?case by simp
next
  case (Cons a kvs)
  obtain n v where a: "a = (n, v)" by (cases a)
  from Cons.prems(1) obtain f1 where p: "Put reg f n v = Inr f1" and r: "putAll reg f1 kvs = Inr f'"
    by (auto simp: a split: sum.splits)
  from Put_holds_old [OF p Cons.prems(2)] have "holds reg f1 m c u" .
  with r show ?case by (rule Cons.IH)
qed

lemma putAll_maxCycle_other:
  assumes "putAll reg f kvs = Inr f'" and "n \<notin> fst ` set kvs"
  shows "maxCycle n (file_keys f') = maxCycle n (file_keys f)"
  using assms
proof (induction kvs arbitrary: f)
  case Nil
  then show ?case by simp
next
  case (Cons a kvs)
  obtain m v where a: "a = (m, v)" by (cases a)
  from Cons.prems(1) obtain f1 where p: "Put reg f m v = Inr f1" and r: "putAll reg f1 kvs = Inr f'"
    by (auto simp: a split: sum.splits)
  from Cons.prems(2) have ne: "n \<noteq> m" and rest: "n \<notin> fst ` set kvs"
    by (auto simp: a)
  have "maxCycle n (file_keys f') = maxCycle n (file_keys f1)"
    using r rest by (rule Cons.IH)
  also have "\<dots> = maxCycle n (file_keys f)"
    using Put_maxCycle [OF p, of n] ne by simp
  finally show ?case .
qed

lemma putAll_holds_new:
  assumes "putAll reg f kvs = Inr f'" and "distinct (map fst kvs)" and "(n, v) \<in> set kvs"
      and "\<forall>k \<in> set (file_keys f). key_name k \<notin> fst ` set kvs"
  shows "holds reg f' n 1 v \<and> maxCycle n (file_keys f') = 1"
  using assms
proof (induction kvs arbitrary: f)
  case Nil
  then show ?case by simp
next
  case (Cons a kvs)
  obtain m u where a: "a = (m, u)" by (cases a)
  from Cons.prems(1) obtain f1 where p: "Put reg f m u = Inr f1" and r: "putAll reg f1 kvs = Inr f'"
    by (auto simp: a split: sum.splits)
  from Cons.prems(2) have d: "distinct (map fst kvs)" and mf: "m \<notin> fst ` set kvs"
    by (auto simp: a)
  show ?case
  proof (cases "(n, v) = (m, u)")
    case True
    have z: "maxCycle m (file_keys f) = 0"
      using Cons.prems(4) by (intro maxCycle_absent) (auto simp: a)
    have "holds reg f1 m 1 u"
      using Put_holds_new [OF p] z by simp
    then have h: "holds reg f' m 1 u"
      by (rule putAll_holds_old [OF r])
    have "maxCycle m (file_keys f') = maxCycle m (file_keys f1)"
      using r mf by (rule putAll_maxCycle_other)
    also have "\<dots> = 1"
      using Put_maxCycle [OF p, of m] z by simp
    finally show ?thesis using h True by simp
  next
    case False
    with Cons.prems(3) have in_rest: "(n, v) \<in> set kvs" by (auto simp: a)
    have fresh: "\<forall>k \<in> set (file_keys f1). key_name k \<notin> fst ` set kvs"
    proof
      fix k assume "k \<in> set (file_keys f1)"
      then have "key_name k \<in> set (map key_name (file_keys f1))" by simp
      then have "key_name k \<in> set (map key_name (file_keys f)) \<or> key_name k = m"
        unfolding Put_names(1) [OF p] by auto
      then show "key_name k \<notin> fst ` set kvs"
      proof
        assume "key_name k \<in> set (map key_name (file_keys f))"
        then obtain k0 where k0: "k0 \<in> set (file_keys f)" and same: "key_name k0 = key_name k"
          by auto
        from Cons.prems(4) k0 have "key_name k0 \<notin> fst ` set (a # kvs)" by blast
        then have "key_name k0 \<notin> fst ` set kvs" by simp
        then show ?thesis by (simp add: same)
      next
        assume "key_name k = m"
        with mf show ?thesis by simp
      qed
    qed
    show ?thesis
      using r d in_rest fresh by (rule Cons.IH)
  qed
qed

lemma registered_7: "registered exampleRegistry 7"
  by (simp add: registered_def exampleRegistry_def)

lemma registered_300: "registered exampleRegistry 300"
  by (simp add: registered_def exampleRegistry_def)

text \<open>
  C8. \<^verbatim>\<open>Put\<close> gives each new key the cycle 1 + max(existing cycles for that name). Two
  successive \<^verbatim>\<open>Put\<close> calls with the same name on an open file in write mode succeed
  and add the cycles \<open>m + 1\<close> and \<open>m + 2\<close> to those of the name, \<open>m\<close> being the
  maximum before; \<^verbatim>\<open>Get(name)\<close> with no cycle resolves to the highest cycle and returns
  the second object, \<^verbatim>\<open>Get(name, m + 1)\<close> returns the first. For a name that the file
  does not have yet, the cycles are 1 then 2 and \<^verbatim>\<open>Get(name, 1)\<close> returns the first object.
\<close>

theorem Put_cycles:
  assumes "\<not> file_closed f" and "file_mode f = ForWrite"
      and "registered reg v1" and "registered reg v2"
  shows "\<exists>f1 f2. Put reg f n v1 = Inr f1 \<and> Put reg f1 n v2 = Inr f2
      \<and> map key_cycle (filter (\<lambda>k. key_name k = n) (Keys f2))
          = map key_cycle (filter (\<lambda>k. key_name k = n) (Keys f))
              @ [1 + maxCycle n (Keys f), 2 + maxCycle n (Keys f)]
      \<and> Get reg f2 n None = Inr v2
      \<and> Get reg f2 n (Some (2 + maxCycle n (Keys f))) = Inr v2
      \<and> Get reg f2 n (Some (1 + maxCycle n (Keys f))) = Inr v1
      \<and> ((\<forall>k \<in> set (Keys f). key_name k \<noteq> n) \<longrightarrow>
            map key_cycle (filter (\<lambda>k. key_name k = n) (Keys f2)) = [1, 2]
            \<and> Get reg f2 n (Some 1) = Inr v1 \<and> Get reg f2 n (Some 2) = Inr v2)"
proof -
  let ?m = "maxCycle n (file_keys f)"
  from Put_result [OF assms(1,2), of reg n v1] obtain f1 where p1: "Put reg f n v1 = Inr f1"
    by blast
  from Put_open [OF p1] have o1: "\<not> file_closed f1" "file_mode f1 = ForWrite" by simp_all
  from Put_result [OF o1, of reg n v2] obtain f2 where p2: "Put reg f1 n v2 = Inr f2"
    by blast
  from Put_open [OF p2] have o2: "\<not> file_closed f2" by simp
  have m1: "maxCycle n (file_keys f1) = 1 + ?m"
    using Put_maxCycle [OF p1, of n] by simp
  have m2: "maxCycle n (file_keys f2) = 2 + ?m"
    using Put_maxCycle [OF p2, of n] m1 by simp
  have h1: "holds reg f2 n (1 + ?m) v1"
    using Put_holds_old [OF p2 Put_holds_new [OF p1]] .
  have h2: "holds reg f2 n (2 + ?m) v2"
    using Put_holds_new [OF p2] m1 by simp
  have g2: "Get reg f2 n (Some (2 + ?m)) = Inr v2"
    using h2 assms(4) o2 by (rule Get_holds)
  have g1: "Get reg f2 n (Some (1 + ?m)) = Inr v1"
    using h1 assms(3) o2 by (rule Get_holds)
  have gl: "Get reg f2 n None = Inr v2"
    using g2 by (simp add: Get_latest m2)
  have cs: "map key_cycle (filter (\<lambda>k. key_name k = n) (file_keys f2))
          = map key_cycle (filter (\<lambda>k. key_name k = n) (file_keys f)) @ [1 + ?m, 2 + ?m]"
    using Put_names(2) [OF p2] Put_names(2) [OF p1] m1 by simp
  have fresh: "map key_cycle (filter (\<lambda>k. key_name k = n) (file_keys f2)) = [1, 2]
            \<and> Get reg f2 n (Some 1) = Inr v1 \<and> Get reg f2 n (Some 2) = Inr v2"
    if a: "\<forall>k \<in> set (file_keys f). key_name k \<noteq> n"
  proof -
    have z: "?m = 0" using a by (rule maxCycle_absent)
    have e: "filter (\<lambda>k. key_name k = n) (file_keys f) = []"
      using a by (simp add: filter_empty_conv)
    show ?thesis using cs g1 g2 by (simp add: z e)
  qed
  show ?thesis
    using p1 p2 cs gl g2 g1 fresh by (auto simp: Keys_def)
qed

theorem Put_cycles_witness:
  "\<not> file_closed (Create ''f.root'') \<and> file_mode (Create ''f.root'') = ForWrite
   \<and> registered exampleRegistry 7 \<and> registered exampleRegistry 300
   \<and> Keys (Create ''f.root'') = []
   \<and> (case Put exampleRegistry (Create ''f.root'') ''h'' 7 of
         Inl e \<Rightarrow> False
       | Inr f1 \<Rightarrow>
           (case Put exampleRegistry f1 ''h'' 300 of
              Inl e \<Rightarrow> False
            | Inr f2 \<Rightarrow>
                map key_cycle (Keys f2) = [1, 2]
                \<and> Get exampleRegistry f2 ''h'' None = Inr 300
                \<and> Get exampleRegistry f2 ''h'' (Some 1) = Inr 7))"
proof -
  have c: "\<not> file_closed (Create ''f.root'')" "file_mode (Create ''f.root'') = ForWrite"
    by (simp_all add: Create_def)
  have k: "Keys (Create ''f.root'') = []"
    by (simp add: Keys_def Create_def)
  show ?thesis
    using c k registered_7 registered_300
      Put_cycles [OF c registered_7 registered_300, of "''h''"]
    by (simp add: Put_def Get_def Keys_def Create_def lookupKey_def keyPayload_def
        exampleRegistry_def Let_def)
qed

text \<open>
  C7. For values of a registered class put under names of their own on a created file,
  the calls succeed; after \<^verbatim>\<open>Close\<close>, \<^verbatim>\<open>Open\<close> of the same path succeeds and
  \<^verbatim>\<open>Get(name)\<close> returns an object equal to the one that was put; \<^verbatim>\<open>Keys()\<close> on the written
  file and on the reopened file reports exactly one entry per name that was put, in the
  order of the calls.
\<close>

theorem Put_Close_Open_Get:
  assumes "distinct (map fst kvs)" and "\<forall>(n, v) \<in> set kvs. registered reg v"
  shows "\<exists>fw fw' disk' fr.
           putAll reg (Create path) kvs = Inr fw
         \<and> Close fw disk = Inr (fw', disk')
         \<and> Open disk' path = Inr fr
         \<and> (\<forall>(n, v) \<in> set kvs. Get reg fr n None = Inr v)
         \<and> map key_name (Keys fw) = map fst kvs
         \<and> map key_name (Keys fr) = map fst kvs"
proof -
  have c: "\<not> file_closed (Create path)" "file_mode (Create path) = ForWrite"
    by (simp_all add: Create_def)
  from putAll_open [OF c, of reg kvs] obtain fw where
    pa: "putAll reg (Create path) kvs = Inr fw"
    and o: "\<not> file_closed fw" "file_mode fw = ForWrite" "file_path fw = path"
    and ns: "map key_name (file_keys fw) = map fst kvs"
    by (auto simp: Create_def)
  let ?disk' = "disk(path \<mapsto> (file_bytes fw, file_keys fw))"
  let ?fr = "\<lparr>file_path = path, file_mode = ForRead, file_closed = False,
              file_keys = file_keys fw, file_bytes = file_bytes fw\<rparr>"
  have cl: "Close fw disk = Inr (fw\<lparr>file_closed := True\<rparr>, ?disk')"
    using o by (simp add: Close_def)
  have op: "Open ?disk' path = Inr ?fr"
    by (simp add: Open_def)
  have get: "Get reg ?fr n None = Inr v" if nv: "(n, v) \<in> set kvs" for n v
  proof -
    have fresh: "\<forall>k \<in> set (file_keys (Create path)). key_name k \<notin> fst ` set kvs"
      by (simp add: Create_def)
    from putAll_holds_new [OF pa assms(1) nv fresh]
    have h: "holds reg fw n 1 v" and m: "maxCycle n (file_keys fw) = 1" by simp_all
    have "holds reg ?fr n 1 v"
      using h by (simp add: holds_same_content [of ?fr fw])
    moreover have "registered reg v" using assms(2) nv by auto
    ultimately have "Get reg ?fr n (Some 1) = Inr v"
      by (rule Get_holds) simp
    then show ?thesis by (simp add: Get_latest m)
  qed
  show ?thesis
    using pa cl op get ns by (auto simp: Keys_def)
qed

theorem Put_Close_Open_Get_witness:
  "distinct (map fst [(''key-TAxis-00'', 7 :: nat), (''key-TAxis-01'', 300)])
   \<and> registered exampleRegistry 7 \<and> registered exampleRegistry 300
   \<and> (case putAll exampleRegistry (Create ''out-0.root'')
              [(''key-TAxis-00'', 7), (''key-TAxis-01'', 300)] of
         Inl e \<Rightarrow> False
       | Inr fw \<Rightarrow>
           map key_name (Keys fw) = [''key-TAxis-00'', ''key-TAxis-01'']
           \<and> (case Close fw Map.empty of
                 Inl e \<Rightarrow> False
               | Inr (fw', d) \<Rightarrow>
                   (case Open d ''out-0.root'' of
                      Inl e \<Rightarrow> False
                    | Inr fr \<Rightarrow>
                        map key_name (Keys fr) = [''key-TAxis-00'', ''key-TAxis-01'']
                        \<and> Get exampleRegistry fr ''key-TAxis-00'' None = Inr 7
                        \<and> Get exampleRegistry fr ''key-TAxis-01'' None = Inr 300)))"
proof -
  have d: "distinct (map fst [(''key-TAxis-00'', 7 :: nat), (''key-TAxis-01'', 300)])"
    by simp
  have g: "\<forall>(n, v) \<in> set [(''key-TAxis-00'', 7), (''key-TAxis-01'', 300)]. registered exampleRegistry v"
    by (simp add: registered_7 registered_300)
  show ?thesis
    using d registered_7 registered_300
      Put_Close_Open_Get [OF d g, of "''out-0.root''" Map.empty]
    by (simp add: Put_def Get_def Keys_def Create_def Close_def Open_def lookupKey_def
        keyPayload_def exampleRegistry_def Let_def)
qed

end
